theory Spec2Isabelle
  imports Complex_Main "HOL-Library.Sublist"
begin

section \<open>Values, arrays and errors\<close>

text \<open>
  The program is \<^verbatim>\<open>Drift_Function.py\<close>. Its data are numpy arrays of floats and of
  integer sample indices.

  \<^item> A float is modelled as \<open>real option\<close>: \<open>Some r\<close> is the finite value \<open>r\<close>, with
    arithmetic taken exactly over the reals, and \<open>None\<close> is \<^verbatim>\<open>nan\<close> (which numpy
    produces for the mean of an empty slice, and which every operation propagates).
  \<^item> A two-dimensional array (and the data frame \<^verbatim>\<open>pd.read_csv\<close> returns) is a record
    of its column count \<^verbatim>\<open>shape[1]\<close> and its rows.
  \<^item> An index array is an \<open>int list\<close>.
  \<^item> An exception is a value \<open>Inl e\<close> of the result type \<open>error + 'a\<close>. Messages of the
    exceptions the program raises itself are the program's; messages of exceptions raised
    inside numpy and matplotlib are abbreviated.

  Outside the model, and taken as arguments where their results are used: reading the file
  (\<^verbatim>\<open>pd.read_csv\<close>), the Butterworth filter (\<^verbatim>\<open>butter\<close>, \<^verbatim>\<open>filtfilt\<close>) and the mouse
  input of \<^verbatim>\<open>trim_aerial_phases\<close> (the list of the selections the user makes). The
  plots, the console output and the example call on the last line of the file are not
  modelled; \<^verbatim>\<open>plots\<close> is taken to be \<^verbatim>\<open>False\<close>.
\<close>

type_synonym float = "real option"

datatype error = IndexError string | ValueError string

definition numpy_IndexError :: error where
  \<comment> \<open>an \<^verbatim>\<open>IndexError\<close> raised inside numpy: an index out of bounds, or an index
      applied to a zero-dimensional array\<close>
  "numpy_IndexError = IndexError ''index out of bounds''"

record ndarray =
  ncols :: nat
  rows :: "float list list"

definition fadd :: "float \<Rightarrow> float \<Rightarrow> float" where
  "fadd a b = (case a of None \<Rightarrow> None | Some x \<Rightarrow> (case b of None \<Rightarrow> None | Some y \<Rightarrow> Some (x + y)))"

definition fsub :: "float \<Rightarrow> float \<Rightarrow> float" where
  "fsub a b = (case a of None \<Rightarrow> None | Some x \<Rightarrow> (case b of None \<Rightarrow> None | Some y \<Rightarrow> Some (x - y)))"

definition fhalf :: "float \<Rightarrow> float" where
  \<comment> \<open>\<^verbatim>\<open>a / 2\<close>\<close>
  "fhalf a = (case a of None \<Rightarrow> None | Some x \<Rightarrow> Some (x / 2))"

definition fgt :: "float \<Rightarrow> real \<Rightarrow> bool" where
  \<comment> \<open>\<^verbatim>\<open>a > t\<close>: a comparison with \<^verbatim>\<open>nan\<close> is false\<close>
  "fgt a t = (case a of None \<Rightarrow> False | Some x \<Rightarrow> t < x)"

definition np_mean :: "float list \<Rightarrow> float" where
  \<comment> \<open>\<^verbatim>\<open>np.mean\<close> of a one-dimensional array: \<^verbatim>\<open>nan\<close> for an empty array\<close>
  "np_mean xs =
     (if xs = [] then None
      else if None \<in> set xs then None
      else Some (sum_list (map the xs) / real (length xs)))"

subsection \<open>Python slices\<close>

definition slice_bound :: "nat \<Rightarrow> int \<Rightarrow> nat" where
  \<comment> \<open>a slice bound \<open>i\<close> on an axis of length \<open>n\<close>: negative bounds count from the end,
      and every bound is clipped to \<open>0..n\<close>\<close>
  "slice_bound n i = (if i < 0 then nat (int n + i) else min n (nat i))"

definition slice :: "'a list \<Rightarrow> int \<Rightarrow> int \<Rightarrow> 'a list" where
  \<comment> \<open>\<^verbatim>\<open>xs[a:b]\<close>\<close>
  "slice xs a b =
     (let lo = slice_bound (length xs) a; hi = slice_bound (length xs) b
      in take (hi - lo) (drop lo xs))"

definition slice_assign :: "'a list \<Rightarrow> int \<Rightarrow> int \<Rightarrow> 'a list \<Rightarrow> 'a list" where
  \<comment> \<open>\<^verbatim>\<open>xs[a:b] = ys\<close> for \<open>ys\<close> of the shape of \<^verbatim>\<open>xs[a:b]\<close>\<close>
  "slice_assign xs a b ys =
     (let lo = slice_bound (length xs) a; hi = slice_bound (length xs) b
      in if lo < hi then take lo xs @ ys @ drop hi xs else xs)"

definition column :: "ndarray \<Rightarrow> nat \<Rightarrow> error + float list" where
  \<comment> \<open>\<^verbatim>\<open>a[:, j]\<close>\<close>
  "column a j =
     (if j < ncols a then Inr (map (\<lambda>r. r ! j) (rows a))
      else Inl numpy_IndexError)"

subsection \<open>numpy on one-dimensional arrays\<close>

fun diff :: "int list \<Rightarrow> int list" where
  \<comment> \<open>\<^verbatim>\<open>np.diff\<close>: \<open>diff c ! k = c ! (k + 1) - c ! k\<close>\<close>
  "diff (x # y # zs) = (y - x) # diff (y # zs)"
| "diff zs = []"

fun nonzero_from :: "int \<Rightarrow> bool list \<Rightarrow> int list" where
  "nonzero_from k [] = []"
| "nonzero_from k (b # bs) = (if b then k # nonzero_from (k + 1) bs else nonzero_from (k + 1) bs)"

definition nonzero :: "bool list \<Rightarrow> int list" where
  \<comment> \<open>\<^verbatim>\<open>np.nonzero\<close>: the indices of the true entries, ascending\<close>
  "nonzero bs = nonzero_from 0 bs"

definition select :: "'a list \<Rightarrow> bool list \<Rightarrow> 'a list" where
  \<comment> \<open>\<^verbatim>\<open>xs[mask]\<close> for a boolean mask of the length of \<open>xs\<close>\<close>
  "select xs msk = map fst (filter snd (zip xs msk))"

definition np_sub :: "int list \<Rightarrow> int list \<Rightarrow> error + int list" where
  \<comment> \<open>\<^verbatim>\<open>xs - ys\<close> with numpy's broadcasting of a length-one operand\<close>
  "np_sub xs ys =
     (if length xs = length ys then Inr (map2 (-) xs ys)
      else if length xs = 1 then Inr (map (\<lambda>y. hd xs - y) ys)
      else if length ys = 1 then Inr (map (\<lambda>x. x - hd ys) xs)
      else Inl (ValueError ''operands could not be broadcast together''))"

section \<open>Ingestion: \<^verbatim>\<open>readcheck_input\<close>\<close>

definition readcheck_input :: "ndarray \<Rightarrow> error + ndarray" where
  \<comment> \<open>the argument is \<^verbatim>\<open>force_imported\<close>, the frame \<^verbatim>\<open>pd.read_csv\<close> returned\<close>
  "readcheck_input force_imported =
     (if ncols force_imported = 3 then Inr force_imported
      else Inl (ValueError ''force data must be Nx3 columns [horizontal, horizontal, vertical]''))"

section \<open>Step segmentation: \<^verbatim>\<open>step_ID\<close>\<close>

definition compare_of :: "float list \<Rightarrow> real \<Rightarrow> int list" where
  \<comment> \<open>\<^verbatim>\<open>(v > threshold).astype(int)\<close>\<close>
  "compare_of v threshold = map (\<lambda>x. if fgt x threshold then 1 else 0) v"

definition edges_begin :: "float list \<Rightarrow> real \<Rightarrow> int list" where
  \<comment> \<open>the indices \<^verbatim>\<open>np.nonzero(events == 1)\<close> of the rising edges\<close>
  "edges_begin v threshold = nonzero (map (\<lambda>e. e = 1) (diff (compare_of v threshold)))"

definition edges_end :: "float list \<Rightarrow> real \<Rightarrow> int list" where
  \<comment> \<open>the indices \<^verbatim>\<open>np.nonzero(events == -1)\<close> of the falling edges\<close>
  "edges_end v threshold = nonzero (map (\<lambda>e. e = - 1) (diff (compare_of v threshold)))"

definition retained_end :: "int list \<Rightarrow> int list \<Rightarrow> int list" where
  \<comment> \<open>line 48: \<^verbatim>\<open>step_end[step_end > step_begin[0]]\<close>\<close>
  "retained_end step_begin step_end = filter (\<lambda>e. hd step_begin < e) step_end"

definition retained_begin :: "int list \<Rightarrow> int list \<Rightarrow> int list" where
  \<comment> \<open>line 50: \<^verbatim>\<open>step_begin[0:step_end.shape[0]]\<close>, with \<open>step_end\<close> as retained\<close>
  "retained_begin step_begin step_end = take (length (retained_end step_begin step_end)) step_begin"

definition step_ID ::
  "ndarray \<Rightarrow> real \<Rightarrow> real \<Rightarrow> real \<Rightarrow> real \<Rightarrow> error + (int list \<times> int list)" where
  \<comment> \<open>\<^verbatim>\<open>step_begin[0]\<close> raises \<^verbatim>\<open>IndexError\<close> on an empty index array, and also on the
      index array of a single edge, which \<^verbatim>\<open>np.squeeze\<close> has turned into a
      zero-dimensional array; indexing by a boolean mask always gives a one-dimensional
      array. The console output is not modelled.\<close>
  "step_ID force threshold Fs min_step max_step =
     (if min_step < max_step then
        (case column force 2 of
           Inl e \<Rightarrow> Inl e
         | Inr v \<Rightarrow>
            (let step_begin = edges_begin v threshold;
                 step_end = edges_end v threshold
             in if length step_begin = 0 then
                  Inl numpy_IndexError
                else if length step_begin = 1 then
                  Inl numpy_IndexError
                else
                  (let step_end' = retained_end step_begin step_end;
                       step_begin' = retained_begin step_begin step_end
                   in case np_sub step_end' step_begin' of
                        Inl e \<Rightarrow> Inl e
                      | Inr step_len \<Rightarrow>
                         (let good_step =
                                map (\<lambda>l. min_step \<le> real_of_int l \<and> real_of_int l \<le> max_step) step_len
                          in Inr (select step_begin' good_step, select step_end' good_step)))))
      else Inl (IndexError ''Did not separate steps. Min step length > Max step length of 0.4s.''))"


section \<open>Trim selection and check: \<^verbatim>\<open>trim_aerial_phases\<close>\<close>

definition in_range :: "nat \<Rightarrow> int \<Rightarrow> bool" where
  \<comment> \<open>an integer index \<open>i\<close> is valid on an axis of length \<open>n\<close>\<close>
  "in_range n i = (- int n \<le> i \<and> i < int n)"

definition py_nth :: "'a list \<Rightarrow> int \<Rightarrow> 'a" where
  \<comment> \<open>\<^verbatim>\<open>xs[i]\<close> for a valid index: a negative index counts from the end\<close>
  "py_nth xs i = xs ! nat (if i < 0 then int (length xs) + i else i)"

definition feq :: "float \<Rightarrow> float \<Rightarrow> bool" where
  \<comment> \<open>\<^verbatim>\<open>a == b\<close>: a comparison with \<^verbatim>\<open>nan\<close> is false\<close>
  "feq a b = (case a of None \<Rightarrow> False | Some x \<Rightarrow> b = Some x)"

definition matplotlib_ValueError :: error where
  \<comment> \<open>the \<^verbatim>\<open>ValueError\<close> that \<^verbatim>\<open>ax.axvline\<close> raises when the position it is given is not
      a single value (the truth value of such an array is ambiguous)\<close>
  "matplotlib_ValueError = ValueError ''the truth value of an array is ambiguous''"

definition round_half :: "int \<Rightarrow> int" where
  \<comment> \<open>\<^verbatim>\<open>np.round(n/2).astype(int)\<close>: halves are rounded to the even neighbour\<close>
  "round_half n = (if even n then n div 2 else if even (n div 2) then n div 2 else n div 2 + 1)"

fun trim_input :: "int \<Rightarrow> int \<Rightarrow> (int \<times> int) list \<Rightarrow> error + int" where
  \<comment> \<open>The loop of lines 120 to 134. \<open>s\<close> and \<open>e\<close> are \<^verbatim>\<open>start_a.nonzero()[0][0]\<close> and
      \<^verbatim>\<open>end_a.nonzero()[0][0]\<close>. The list holds the selections of the user in turn, each the
      pair \<^verbatim>\<open>(points[0,0], points[1,0])\<close> of the two clicked positions as integers. After
      the last one the user ends the input: \<^verbatim>\<open>plt.ginput\<close> then returns no point and
      \<^verbatim>\<open>points[:,0]\<close> raises \<^verbatim>\<open>IndexError\<close>.\<close>
  "trim_input s e [] = Inl numpy_IndexError"
| "trim_input s e ((x0, x1) # clicks) =
     (if x0 < s \<or> x1 < s \<or> e < x0 \<or> e < x1 then trim_input s e clicks
      else if x1 < x0 then trim_input s e clicks
      else Inr (round_half (x0 - s + e - x1)))"

definition trim_aerial_phases ::
  "ndarray \<Rightarrow> int list \<Rightarrow> int list \<Rightarrow> (int \<times> int) list \<Rightarrow> error + int" where
  \<comment> \<open>Lines 108 to 111 index the step arrays and the signal and raise \<^verbatim>\<open>IndexError\<close> when
      there are fewer than two steps. Lines 112 and 113 draw a vertical line at the positions
      where the plotted window equals the force at \<^verbatim>\<open>end[0]\<close>, and at \<^verbatim>\<open>begin[1]\<close>: they
      raise \<^verbatim>\<open>ValueError\<close> unless there is exactly one such position. Then the input loop
      yields \<open>trim\<close>, and lines 137 to 140 check it against the aerial phases. The plot
      itself is not modelled.\<close>
  "trim_aerial_phases force step_begin step_end clicks =
     (if length step_begin < 2 \<or> length step_end < 2 then Inl numpy_IndexError
      else if ncols force < 3 then Inl numpy_IndexError
      else if \<not> (in_range (length (rows force)) (step_end ! 0)
                 \<and> in_range (length (rows force)) (step_begin ! 1)) then Inl numpy_IndexError
      else
        (let window = map (\<lambda>r. r ! 2) (slice (rows force) (step_begin ! 0) (step_end ! 1));
             start_a = nonzero (map (\<lambda>x. feq x (py_nth (rows force) (step_end ! 0) ! 2)) window);
             end_a = nonzero (map (\<lambda>x. feq x (py_nth (rows force) (step_begin ! 1) ! 2)) window)
         in if \<not> (length start_a = 1 \<and> length end_a = 1) then Inl matplotlib_ValueError
            else
              (case trim_input (hd start_a) (hd end_a) clicks of
                 Inl e \<Rightarrow> Inl e
               | Inr trim \<Rightarrow>
                  (case np_sub (tl step_begin) (butlast step_end) of
                     Inl e \<Rightarrow> Inl e
                   | Inr aerial_len \<Rightarrow>
                       if \<exists>l\<in>set aerial_len. l < trim * 2 then
                         Inl (IndexError ''Trim amount is greater than aerial phase length. If trim selection was reasonable, adjust threshold or min_step_len.'')
                       else Inr trim))))"

section \<open>Aerial means and drift removal: \<^verbatim>\<open>detrend_force\<close>\<close>

definition trimmed_mean :: "float list list \<Rightarrow> int \<Rightarrow> int \<Rightarrow> int \<Rightarrow> nat \<Rightarrow> float" where
  \<comment> \<open>\<^verbatim>\<open>np.mean(a[b+trim:e-trim, j])\<close>\<close>
  "trimmed_mean a b e trim j = np_mean (map (\<lambda>r. r ! j) (slice a (b + trim) (e - trim)))"

definition aerial_means :: "ndarray \<Rightarrow> int list \<Rightarrow> int list \<Rightarrow> int \<Rightarrow> error + float list list" where
  \<comment> \<open>lines 241 to 245; the first iteration raises when an index is out of bounds\<close>
  "aerial_means force_f aerial_begin_all aerial_end_all trim =
     (if aerial_begin_all = [] then Inr []
      else if length aerial_end_all < length aerial_begin_all \<or> ncols force_f < 3 then
        Inl numpy_IndexError
      else Inr (map (\<lambda>i. [trimmed_mean (rows force_f) (aerial_begin_all ! i) (aerial_end_all ! i) trim 0,
                           trimmed_mean (rows force_f) (aerial_begin_all ! i) (aerial_end_all ! i) trim 1,
                           trimmed_mean (rows force_f) (aerial_begin_all ! i) (aerial_end_all ! i) trim 2])
                  [0..<length aerial_begin_all]))"

definition zeros :: "ndarray \<Rightarrow> float list list" where
  \<comment> \<open>\<^verbatim>\<open>np.zeros(a.shape)\<close>\<close>
  "zeros a = replicate (length (rows a)) (replicate (ncols a) (Some 0))"

definition diff_temp :: "float list list \<Rightarrow> nat \<Rightarrow> float" where
  \<comment> \<open>line 257: \<^verbatim>\<open>(aerial_means[i,2]+aerial_means[i+1,2])/2\<close>\<close>
  "diff_temp means i = fhalf (fadd (means ! i ! 2) (means ! (i + 1) ! 2))"

definition detrend_step ::
  "float list list \<Rightarrow> int list \<Rightarrow> float list list \<Rightarrow> float list list \<Rightarrow> nat \<Rightarrow> float list list" where
  \<comment> \<open>line 259, for \<open>i + 1\<close> within \<open>step_begin_all\<close>\<close>
  "detrend_step force_f step_begin_all means fd i =
     slice_assign fd (step_begin_all ! i) (step_begin_all ! (i + 1))
       (map (map (\<lambda>x. fsub x (diff_temp means i)))
          (slice force_f (step_begin_all ! i) (step_begin_all ! (i + 1))))"

fun detrend_loop ::
  "float list list \<Rightarrow> int list \<Rightarrow> float list list \<Rightarrow> float list list \<Rightarrow> nat list
     \<Rightarrow> error + float list list" where
  "detrend_loop force_f step_begin_all means fd [] = Inr fd"
| "detrend_loop force_f step_begin_all means fd (i # is) =
     (if length step_begin_all \<le> i + 1 then Inl numpy_IndexError
      else detrend_loop force_f step_begin_all means
             (detrend_step force_f step_begin_all means fd i) is)"

definition force_fd :: "ndarray \<Rightarrow> int list \<Rightarrow> float list list \<Rightarrow> error + float list list" where
  \<comment> \<open>lines 253 to 259: the rows of \<open>force_fd\<close> after the loop over
      \<^verbatim>\<open>range(aerial_means.shape[0]-1)\<close>\<close>
  "force_fd force_f step_begin_all means =
     detrend_loop (rows force_f) step_begin_all means (zeros force_f)
       [0..<length means - 1]"

definition aerial_means_d :: "ndarray \<Rightarrow> int list \<Rightarrow> int list \<Rightarrow> int \<Rightarrow> error + float list" where
  \<comment> \<open>lines 278 to 282: the vertical means of the detrended signal, those equal to
      \<open>0.0\<close> removed (\<^verbatim>\<open>nan != 0.0\<close> is true)\<close>
  "aerial_means_d fd aerial_begin_all aerial_end_all trim =
     (if aerial_begin_all = [] then Inr []
      else if length aerial_end_all < length aerial_begin_all \<or> ncols fd < 3 then
        Inl numpy_IndexError
      else Inr (filter (\<lambda>m. m \<noteq> Some 0)
                  (map (\<lambda>i. trimmed_mean (rows fd) (aerial_begin_all ! i) (aerial_end_all ! i) trim 2)
                     [0..<length aerial_begin_all])))"

definition detrend_force ::
  "ndarray \<Rightarrow> real \<Rightarrow> real \<Rightarrow> real \<Rightarrow> real \<Rightarrow> (real \<Rightarrow> real \<Rightarrow> ndarray \<Rightarrow> error + ndarray)
     \<Rightarrow> (int \<times> int) list \<Rightarrow> error + (ndarray \<times> float list list \<times> float list)" where
  \<comment> \<open>\<open>force_imported\<close> is what \<^verbatim>\<open>pd.read_csv(filename)\<close> returned; \<open>filt Fs Fc\<close> is the
      Butterworth filter of lines 220 to 222, an external operation that may raise;
      \<open>trim_sel\<close> holds the selections of the user in \<^verbatim>\<open>trim_aerial_phases\<close>; \<open>plots\<close> is
      \<open>False\<close>.\<close>
  "detrend_force force_imported Fs Fc min_step step_threshold filt trim_sel =
     (case readcheck_input force_imported of
        Inl e \<Rightarrow> Inl e
      | Inr force \<Rightarrow>
     (case filt Fs Fc force of
        Inl e \<Rightarrow> Inl e
      | Inr force_f \<Rightarrow>
     (case step_ID force_f step_threshold Fs min_step (0.4 * Fs) of
        Inl e \<Rightarrow> Inl e
      | Inr (step_begin_all, step_end_all) \<Rightarrow>
     (case trim_aerial_phases force_f step_begin_all step_end_all trim_sel of
        Inl e \<Rightarrow> Inl e
      | Inr trim \<Rightarrow>
     (case aerial_means force_f (butlast step_end_all) (tl step_begin_all) trim of
        Inl e \<Rightarrow> Inl e
      | Inr means \<Rightarrow>
     (case force_fd force_f step_begin_all means of
        Inl e \<Rightarrow> Inl e
      | Inr fd \<Rightarrow>
     (case aerial_means_d \<lparr>ncols = ncols force_f, rows = fd\<rparr>
             (butlast step_end_all) (tl step_begin_all) trim of
        Inl e \<Rightarrow> Inl e
      | Inr means_d \<Rightarrow> Inr (\<lparr>ncols = ncols force_f, rows = fd\<rparr>, means, means_d))))))))"

section \<open>Vocabulary of the proofs\<close>

text \<open>
  \<open>inter k xs ys\<close>: the two index lists alternate, \<open>xs\<close> first, in one strictly increasing
  sequence that starts at \<open>k\<close> or later. \<open>chain k ps\<close>: the pairs \<open>(b, e)\<close> of \<open>ps\<close> satisfy
  \<open>b < e\<close> and follow one another, the first at \<open>k\<close> or later. \<open>rise\<close> and \<open>fall\<close> are the
  edge indices of a binarized sequence, counted from \<open>k\<close>.
\<close>

function inter :: "int \<Rightarrow> int list \<Rightarrow> int list \<Rightarrow> bool" where
  "inter k [] ys = (ys = [])"
| "inter k (x # xs) ys = (k \<le> x \<and> inter (x + 1) ys xs)"
  by pat_completeness auto
termination
  by (relation "measure (\<lambda>(k, xs, ys). length xs + length ys)") auto

fun chain :: "int \<Rightarrow> (int \<times> int) list \<Rightarrow> bool" where
  "chain k [] = True"
| "chain k ((b, e) # ps) = (k \<le> b \<and> b < e \<and> chain (e + 1) ps)"

definition rise :: "int \<Rightarrow> int list \<Rightarrow> int list" where
  "rise k c = nonzero_from k (map (\<lambda>e. e = 1) (diff c))"

definition fall :: "int \<Rightarrow> int list \<Rightarrow> int list" where
  "fall k c = nonzero_from k (map (\<lambda>e. e = - 1) (diff c))"

subsection \<open>Example trials\<close>

definition trial :: "real list \<Rightarrow> ndarray" where
  \<comment> \<open>a three-column signal with horizontal forces 1 and 2 and the given vertical forces\<close>
  "trial vs = \<lparr>ncols = 3, rows = map (\<lambda>v. [Some 1, Some 2, Some v]) vs\<rparr>"

definition three_steps :: ndarray where
  \<comment> \<open>three stance phases and two aerial phases of three samples, all samples distinct\<close>
  "three_steps = trial [0, 150, 160, 4, 5, 6, 170, 180, 8, 9, 10, 190, 200, 1]"

definition starts_in_stance :: ndarray where
  \<comment> \<open>a trial that begins and ends in a stance phase\<close>
  "starts_in_stance = trial [150, 0, 150, 0, 150, 150]"

definition even_gaps :: ndarray where
  \<comment> \<open>three stance phases separated by aerial phases of four samples\<close>
  "even_gaps = trial [0, 150, 150, 4, 4, 4, 4, 150, 150, 6, 6, 6, 6, 150, 150, 0]"

definition short_second_aerial :: ndarray where
  \<comment> \<open>three stance phases, an aerial phase of six samples and one of four, all samples
      distinct\<close>
  "short_second_aerial =
     trial [0, 150, 160, 4, 5, 6, 7, 8, 9, 170, 180, 10, 11, 12, 13, 190, 200, 1]"

definition one_rising_edge :: ndarray where
  \<comment> \<open>a trial that begins in a stance phase and has a single rising edge\<close>
  "one_rising_edge = trial [150, 0, 150, 150]"

definition zero_drift :: ndarray where
  \<comment> \<open>three stance phases; the samples inside the trimmed aerial phases are zero on all
      axes\<close>
  "zero_drift =
     \<lparr>ncols = 3,
      rows = map (\<lambda>v. [Some 0, Some 0, Some v])
               [2, 150, 160, 0, - 1, 1, 170, 180, 0, 3, 4, 190, 200, 5]\<rparr>"

definition no_filter :: "real \<Rightarrow> real \<Rightarrow> ndarray \<Rightarrow> error + ndarray" where
  \<comment> \<open>the identity in the place of the Butterworth filter\<close>
  "no_filter Fs Fc a = Inr a"

definition dip :: ndarray where
  \<comment> \<open>two stance phases, the first with a dip to 5 N between peaks of 10 N\<close>
  "dip = trial [0, 10, 5, 10, 0, 10, 0]"

subsection \<open>Edges, read off the samples\<close>

text \<open>
  A rising edge at \<open>k\<close> is a sample that is not above the threshold followed by a sample
  above it; a falling edge at \<open>k\<close> is a sample above the threshold followed by one that is
  not.
\<close>

definition rising_edges :: "float list \<Rightarrow> real \<Rightarrow> nat list" where
  "rising_edges v t = filter (\<lambda>k. \<not> fgt (v ! k) t \<and> fgt (v ! Suc k) t) [0..<length v - 1]"

definition falling_edges :: "float list \<Rightarrow> real \<Rightarrow> nat list" where
  "falling_edges v t = filter (\<lambda>k. fgt (v ! k) t \<and> \<not> fgt (v ! Suc k) t) [0..<length v - 1]"

section \<open>Edges of a binarized signal alternate\<close>

lemma inter_mono: "inter k xs ys \<Longrightarrow> j \<le> k \<Longrightarrow> inter j xs ys"
  by (cases xs) auto

lemma inter_lower: "inter k xs ys \<Longrightarrow> (\<forall>x\<in>set xs. k \<le> x) \<and> (\<forall>y\<in>set ys. k < y)"
proof (induction k xs ys rule: inter.induct)
  case (1 k ys)
  then show ?case by simp
next
  case (2 k x xs ys)
  then show ?case by fastforce
qed

lemma edges_inter:
  "(\<forall>x\<in>set c. x = 0 \<or> x = 1) \<Longrightarrow> c \<noteq> [] \<Longrightarrow>
     (if hd c = 0 then inter k (rise k c) (fall k c) else inter k (fall k c) (rise k c))"
proof (induction c arbitrary: k rule: diff.induct)
  case (1 x y zs)
  have IH: "if y = 0 then inter (k + 1) (rise (k + 1) (y # zs)) (fall (k + 1) (y # zs))
            else inter (k + 1) (fall (k + 1) (y # zs)) (rise (k + 1) (y # zs))"
    using 1(1)[of "k + 1"] 1(2) by simp
  have xy: "(x = 0 \<or> x = 1) \<and> (y = 0 \<or> y = 1)" using 1(2) by simp
  show ?case
    using IH xy by (auto simp: rise_def fall_def intro: inter_mono)
qed (simp_all add: rise_def fall_def)

lemma inter_chain:
  "inter k bs es \<Longrightarrow> length es \<le> length bs \<and> length bs \<le> length es + 1 \<and> chain k (zip bs es)"
proof (induction bs arbitrary: es k)
  case Nil
  then show ?case by simp
next
  case (Cons b bs)
  show ?case
  proof (cases es)
    case Nil
    then show ?thesis using Cons.prems by simp
  next
    case (Cons e es')
    then show ?thesis using Cons.prems Cons.IH[of "e + 1" es'] by auto
  qed
qed


lemma chain_mono: "chain k ps \<Longrightarrow> j \<le> k \<Longrightarrow> chain j ps"
  by (cases ps) auto

lemma chain_filter: "chain k ps \<Longrightarrow> chain k (filter P ps)"
proof (induction ps arbitrary: k)
  case Nil
  then show ?case by simp
next
  case (Cons p ps)
  obtain b e where p: "p = (b, e)" by (cases p)
  from Cons.prems p have be: "k \<le> b" "b < e" and rest: "chain (e + 1) ps" by auto
  from Cons.IH[OF rest] have "chain (e + 1) (filter P ps)" .
  then show ?case using be p by (auto intro: chain_mono)
qed

lemma chain_nth:
  "length B = length E \<Longrightarrow> chain k (zip B E) \<Longrightarrow>
     (\<forall>i<length B. B ! i < E ! i) \<and> (\<forall>i. Suc i < length B \<longrightarrow> E ! i < B ! Suc i)"
proof (induction B E arbitrary: k rule: list_induct2)
  case Nil
  then show ?case by simp
next
  case (Cons b B e E)
  from Cons.prems have be: "b < e" and rest: "chain (e + 1) (zip B E)" by auto
  from Cons.IH[OF rest] have IH1: "\<forall>i<length B. B ! i < E ! i"
    and IH2: "\<forall>i. Suc i < length B \<longrightarrow> E ! i < B ! Suc i" by auto
  have hd_next: "0 < length B \<Longrightarrow> e < B ! 0"
    using rest Cons.hyps by (cases B; cases E) auto
  have "\<forall>i<length (b # B). (b # B) ! i < (e # E) ! i"
    using be IH1 by (auto simp: nth_Cons split: nat.splits)
  moreover have "\<forall>i. Suc i < length (b # B) \<longrightarrow> (e # E) ! i < (b # B) ! Suc i"
    using hd_next IH2 by (auto simp: nth_Cons split: nat.splits)
  ultimately show ?case by blast
qed

lemma select_pairs:
  "length sb = length se \<Longrightarrow>
     zip (select sb (map P (map2 f se sb))) (select se (map P (map2 f se sb)))
       = filter (\<lambda>(b, e). P (f e b)) (zip sb se)
     \<and> length (select sb (map P (map2 f se sb))) = length (select se (map P (map2 f se sb)))"
  by (induction sb se rule: list_induct2) (auto simp: select_def)

lemma inter_retained:
  assumes "rises \<noteq> []" and "inter k rises falls \<or> inter k falls rises"
  shows "\<exists>j. inter j rises (filter (\<lambda>e. hd rises < e) falls)"
proof -
  obtain b0 bs where r: "rises = b0 # bs" using assms(1) by (cases rises) auto
  from assms(2) show ?thesis
  proof
    assume a: "inter k rises falls"
    then have "inter (b0 + 1) falls bs" using r by simp
    then have "\<forall>e\<in>set falls. b0 < e" using inter_lower[of "b0 + 1" falls bs] by auto
    then have "filter (\<lambda>e. hd rises < e) falls = falls" using r by simp
    then show ?thesis using a by auto
  next
    assume a: "inter k falls rises"
    then obtain f0 fs where f: "falls = f0 # fs" using r by (cases falls) auto
    from a f r have f0: "f0 < b0" and i1: "inter (f0 + 1) rises fs" and i2: "inter (b0 + 1) fs bs"
      by auto
    from i2 have "\<forall>e\<in>set fs. b0 < e" using inter_lower[of "b0 + 1" fs bs] by auto
    then have "filter (\<lambda>e. hd rises < e) falls = fs" using r f f0 by simp
    then show ?thesis using i1 by auto
  qed
qed

lemma compare_of_binary: "\<forall>x\<in>set (compare_of v t). x = 0 \<or> x = 1"
  by (auto simp: compare_of_def)

lemma edges_alternate:
  "inter 0 (edges_begin v t) (edges_end v t) \<or> inter 0 (edges_end v t) (edges_begin v t)"
proof (cases "v = []")
  case True
  then show ?thesis by (simp add: edges_begin_def edges_end_def compare_of_def nonzero_def)
next
  case False
  then have ne: "compare_of v t \<noteq> []" by (simp add: compare_of_def)
  from edges_inter[OF compare_of_binary ne, of 0] show ?thesis
    by (auto simp: edges_begin_def edges_end_def nonzero_def rise_def fall_def split: if_splits)
qed

lemma retained_chain:
  assumes "edges_begin v t \<noteq> []"
  shows "length (retained_begin (edges_begin v t) (edges_end v t))
           = length (retained_end (edges_begin v t) (edges_end v t))
       \<and> (\<exists>j. chain j (zip (retained_begin (edges_begin v t) (edges_end v t))
                           (retained_end (edges_begin v t) (edges_end v t))))"
proof -
  let ?sb = "edges_begin v t" and ?se = "edges_end v t"
  let ?re = "retained_end ?sb ?se"
  from inter_retained[OF assms edges_alternate] obtain j where j: "inter j ?sb ?re"
    by (auto simp: retained_end_def)
  from inter_chain[OF j] have len: "length ?re \<le> length ?sb" and ch: "chain j (zip ?sb ?re)"
    by auto
  have "zip (take (length ?re) ?sb) ?re = take (length ?re) (zip ?sb ?re)"
    by (simp add: take_zip)
  also have "\<dots> = zip ?sb ?re" using len by simp
  finally have z: "zip (retained_begin ?sb ?se) ?re = zip ?sb ?re"
    by (simp add: retained_begin_def)
  have "length (retained_begin ?sb ?se) = length ?re"
    using len by (simp add: retained_begin_def)
  then show ?thesis using z ch by auto
qed

lemma step_ID_pairs:
  assumes "step_ID force threshold Fs min_step max_step = Inr (B, E)"
  shows "length B = length E \<and> (\<exists>j. chain j (zip B E))"
proof -
  from assms obtain v where v: "column force 2 = Inr v"
    by (auto simp: step_ID_def split: if_splits sum.splits)
  let ?sb = "edges_begin v threshold" and ?se = "edges_end v threshold"
  let ?sb' = "retained_begin ?sb ?se" and ?se' = "retained_end ?sb ?se"
  let ?P = "\<lambda>l. min_step \<le> real_of_int l \<and> real_of_int l \<le> max_step"
  from assms v have ne: "?sb \<noteq> []"
    by (auto simp: step_ID_def Let_def split: if_splits sum.splits)
  from retained_chain[OF ne] obtain j where len: "length ?sb' = length ?se'"
    and ch: "chain j (zip ?sb' ?se')" by auto
  have sub: "np_sub ?se' ?sb' = Inr (map2 (-) ?se' ?sb')" using len by (simp add: np_sub_def)
  from assms v sub have B: "B = select ?sb' (map ?P (map2 (-) ?se' ?sb'))"
    and E: "E = select ?se' (map ?P (map2 (-) ?se' ?sb'))"
    by (auto simp: step_ID_def Let_def split: if_splits)
  from select_pairs[OF len, of ?P "(-)"] B E
  have zipBE: "zip B E = filter (\<lambda>(b, e). ?P (e - b)) (zip ?sb' ?se')" and lenBE: "length B = length E"
    by auto
  from chain_filter[OF ch] zipBE have "chain j (zip B E)" by simp
  then show ?thesis using lenBE by auto
qed



lemma chain_sorted:
  "length B = length E \<Longrightarrow> chain k (zip B E) \<Longrightarrow>
     sorted_wrt (<) B \<and> sorted_wrt (<) E \<and> (\<forall>b\<in>set B. k \<le> b) \<and> (\<forall>e\<in>set E. k < e)"
proof (induction B E arbitrary: k rule: list_induct2)
  case Nil
  then show ?case by simp
next
  case (Cons b B e E)
  from Cons.prems have kb: "k \<le> b" and be: "b < e" and rest: "chain (e + 1) (zip B E)" by auto
  from Cons.IH[OF rest] have sB: "sorted_wrt (<) B" and sE: "sorted_wrt (<) E"
    and lB: "\<forall>x\<in>set B. e + 1 \<le> x" and lE: "\<forall>x\<in>set E. e + 1 < x" by auto
  show ?case using kb be sB sE lB lE by fastforce
qed

section \<open>The edge indices, read off the samples\<close>

lemma nonzero_from_filter:
  "nonzero_from k bs = map (\<lambda>i. k + int i) (filter (\<lambda>i. bs ! i) [0..<length bs])"
proof (induction bs arbitrary: k)
  case Nil
  then show ?case by simp
next
  case (Cons b bs)
  have upt: "[0..<length (b # bs)] = 0 # map Suc [0..<length bs]"
    by (simp add: upt_conv_Cons map_Suc_upt del: upt_Suc)
  have flt: "filter (\<lambda>i. (x # bs) ! i) (map Suc [0..<length bs]) = map Suc (filter (\<lambda>i. bs ! i) [0..<length bs])"
    for x by (simp add: filter_map comp_def)
  have shift: "map (\<lambda>i. k + 1 + int i) ys = map (\<lambda>i. k + int i) (map Suc ys)" for ys
    by (simp add: comp_def ac_simps)
  show ?case
    unfolding upt using Cons.IH[of "k + 1"] flt shift by (cases b) simp_all
qed

lemma diff_length: "length (diff c) = length c - 1"
  by (induction c rule: diff.induct) auto

lemma diff_nth: "Suc i < length c \<Longrightarrow> diff c ! i = c ! Suc i - c ! i"
proof (induction c arbitrary: i rule: diff.induct)
  case (1 x y zs)
  then show ?case by (cases i) auto
qed simp_all

lemma edges_begin_rising: "edges_begin v t = map int (rising_edges v t)"
proof -
  let ?c = "compare_of v t"
  have len: "length (diff ?c) = length v - 1" by (simp add: diff_length compare_of_def)
  have "filter (\<lambda>i. map (\<lambda>e. e = 1) (diff ?c) ! i) [0..<length v - 1]
      = filter (\<lambda>k. \<not> fgt (v ! k) t \<and> fgt (v ! Suc k) t) [0..<length v - 1]"
  proof (rule filter_cong[OF refl])
    fix i assume "i \<in> set [0..<length v - 1]"
    then have i: "Suc i < length v" by auto
    then have "diff ?c ! i = ?c ! Suc i - ?c ! i" by (simp add: diff_nth compare_of_def)
    then show "map (\<lambda>e. e = 1) (diff ?c) ! i = (\<not> fgt (v ! i) t \<and> fgt (v ! Suc i) t)"
      using i len by (auto simp: compare_of_def split: if_splits)
  qed
  then show ?thesis
    using len by (simp add: edges_begin_def nonzero_def nonzero_from_filter rising_edges_def)
qed

lemma edges_end_falling: "edges_end v t = map int (falling_edges v t)"
proof -
  let ?c = "compare_of v t"
  have len: "length (diff ?c) = length v - 1" by (simp add: diff_length compare_of_def)
  have "filter (\<lambda>i. map (\<lambda>e. e = - 1) (diff ?c) ! i) [0..<length v - 1]
      = filter (\<lambda>k. fgt (v ! k) t \<and> \<not> fgt (v ! Suc k) t) [0..<length v - 1]"
  proof (rule filter_cong[OF refl])
    fix i assume "i \<in> set [0..<length v - 1]"
    then have i: "Suc i < length v" by auto
    then have "diff ?c ! i = ?c ! Suc i - ?c ! i" by (simp add: diff_nth compare_of_def)
    then show "map (\<lambda>e. e = - 1) (diff ?c) ! i = (fgt (v ! i) t \<and> \<not> fgt (v ! Suc i) t)"
      using i len by (auto simp: compare_of_def split: if_splits)
  qed
  then show ?thesis
    using len by (simp add: edges_end_def nonzero_def nonzero_from_filter falling_edges_def)
qed

lemma edges_start_above:
  assumes "v \<noteq> []" and "fgt (hd v) t"
  shows "inter 0 (edges_end v t) (edges_begin v t)"
proof -
  have ne: "compare_of v t \<noteq> []" using assms(1) by (simp add: compare_of_def)
  have "hd (compare_of v t) = 1" using assms by (cases v) (auto simp: compare_of_def)
  with edges_inter[OF compare_of_binary ne, of 0] show ?thesis
    by (simp add: edges_begin_def edges_end_def nonzero_def rise_def fall_def)
qed

lemma step_ID_unfold:
  assumes "min_step < max_step" and "2 < ncols force"
    and "2 \<le> length (edges_begin (map (\<lambda>r. r ! 2) (rows force)) threshold)"
  shows "step_ID force threshold Fs min_step max_step =
     (let v = map (\<lambda>r. r ! 2) (rows force);
          rb = retained_begin (edges_begin v threshold) (edges_end v threshold);
          re = retained_end (edges_begin v threshold) (edges_end v threshold);
          good_step = map (\<lambda>l. min_step \<le> real_of_int l \<and> real_of_int l \<le> max_step) (map2 (-) re rb)
      in Inr (select rb good_step, select re good_step))"
proof -
  let ?v = "map (\<lambda>r. r ! 2) (rows force)"
  have col: "column force 2 = Inr ?v" using assms(2) by (simp add: column_def)
  have ne: "edges_begin ?v threshold \<noteq> []" using assms(3) by auto
  from retained_chain[OF ne] have len:
    "length (retained_begin (edges_begin ?v threshold) (edges_end ?v threshold))
       = length (retained_end (edges_begin ?v threshold) (edges_end ?v threshold))" by simp
  then have sub: "np_sub (retained_end (edges_begin ?v threshold) (edges_end ?v threshold))
                    (retained_begin (edges_begin ?v threshold) (edges_end ?v threshold))
      = Inr (map2 (-) (retained_end (edges_begin ?v threshold) (edges_end ?v threshold))
                   (retained_begin (edges_begin ?v threshold) (edges_end ?v threshold)))"
    by (simp add: np_sub_def)
  have l0: "length (edges_begin ?v threshold) \<noteq> 0" "length (edges_begin ?v threshold) \<noteq> 1"
    using assms(3) by auto
  show ?thesis using assms(1) col sub l0 by (simp add: step_ID_def Let_def)
qed

section \<open>Claims about \<^verbatim>\<open>step_ID\<close>\<close>

text \<open>
  C2. Whenever \<open>step_ID\<close> returns, the two returned index sequences have the same length,
  \<open>begins[i] < ends[i]\<close> for every \<open>i\<close>, \<open>ends[i] < begins[i+1]\<close> for every \<open>i\<close> with a
  successor, and both sequences are strictly increasing.
\<close>

theorem step_ID_interleaved:
  assumes "step_ID force threshold Fs min_step max_step = Inr (begins, ends)"
  shows "length begins = length ends
       \<and> (\<forall>i<length begins. begins ! i < ends ! i)
       \<and> (\<forall>i. Suc i < length begins \<longrightarrow> ends ! i < begins ! Suc i)
       \<and> sorted_wrt (<) begins \<and> sorted_wrt (<) ends"
proof -
  from step_ID_pairs[OF assms] obtain j where len: "length begins = length ends"
    and ch: "chain j (zip begins ends)" by auto
  from chain_nth[OF len ch] chain_sorted[OF len ch] len show ?thesis by blast
qed

lemma three_steps_step_ID: "step_ID three_steps 100 10 1 4 = Inr ([0, 5, 10], [2, 7, 12])"
  by (simp add: three_steps_def trial_def step_ID_def column_def edges_begin_def edges_end_def
      compare_of_def fgt_def nonzero_def retained_end_def retained_begin_def np_sub_def select_def)

theorem step_ID_interleaved_witness:
  "step_ID three_steps 100 10 1 4 = Inr ([0, 5, 10], [2, 7, 12])
   \<and> length [0, 5, 10 :: int] = length [2, 7, 12 :: int]
   \<and> sorted_wrt (<) [0, 5, 10 :: int] \<and> sorted_wrt (<) [2, 7, 12 :: int]"
  using step_ID_interleaved[OF three_steps_step_ID] three_steps_step_ID by simp

text \<open>
  C3. When \<open>min_step < max_step\<close> does not hold, \<open>step_ID\<close> raises at once the
  \<^verbatim>\<open>IndexError\<close> of its \<^verbatim>\<open>else\<close> branch (the specification's configuration error): the
  result is that error for every signal, threshold and sampling rate, also for a signal
  whose vertical column cannot be read, so nothing was computed on the signal.
\<close>

theorem step_ID_min_ge_max:
  assumes "max_step \<le> min_step"
  shows "step_ID force threshold Fs min_step max_step
           = Inl (IndexError ''Did not separate steps. Min step length > Max step length of 0.4s.'')"
  using assms by (simp add: step_ID_def)

theorem step_ID_min_ge_max_witness:
  "(4 :: real) \<le> 4
   \<and> step_ID three_steps 100 10 4 4
       = Inl (IndexError ''Did not separate steps. Min step length > Max step length of 0.4s.'')
   \<and> step_ID \<lparr>ncols = 0, rows = []\<rparr> 100 10 5 4
       = Inl (IndexError ''Did not separate steps. Min step length > Max step length of 0.4s.'')"
  using step_ID_min_ge_max[of 4 4 three_steps 100 10]
    step_ID_min_ge_max[of 4 5 "\<lparr>ncols = 0, rows = []\<rparr>" 100 10] by simp

text \<open>
  C10. With \<open>min_step < max_step\<close> and a readable vertical column, a signal with fewer than
  two rising edges (none, or exactly one) makes \<open>step_ID\<close> raise numpy's \<^verbatim>\<open>IndexError\<close> at
  \<^verbatim>\<open>step_begin[0]\<close>: it does not return empty or one-element index sequences.
\<close>

theorem step_ID_few_rising_edges:
  assumes "min_step < max_step" and "2 < ncols force"
    and "length (rising_edges (map (\<lambda>r. r ! 2) (rows force)) threshold) < 2"
  shows "step_ID force threshold Fs min_step max_step = Inl numpy_IndexError"
proof -
  have col: "column force 2 = Inr (map (\<lambda>r. r ! 2) (rows force))"
    using assms(2) by (simp add: column_def)
  have "length (edges_begin (map (\<lambda>r. r ! 2) (rows force)) threshold) < 2"
    using assms(3) by (simp add: edges_begin_rising)
  then have "length (edges_begin (map (\<lambda>r. r ! 2) (rows force)) threshold) = 0
           \<or> length (edges_begin (map (\<lambda>r. r ! 2) (rows force)) threshold) = 1" by linarith
  then show ?thesis using assms(1) col by (auto simp: step_ID_def Let_def)
qed

theorem step_ID_few_rising_edges_witness:
  "rising_edges (map (\<lambda>r. r ! 2) (rows (trial [0, 150, 150, 0]))) 100 = [0]
   \<and> step_ID (trial [0, 150, 150, 0]) 100 10 1 4 = Inl numpy_IndexError
   \<and> rising_edges (map (\<lambda>r. r ! 2) (rows (trial [0, 0, 0, 0]))) 100 = []
   \<and> step_ID (trial [0, 0, 0, 0]) 100 10 1 4 = Inl numpy_IndexError"
proof -
  have one: "rising_edges (map (\<lambda>r. r ! 2) (rows (trial [0, 150, 150, 0]))) 100 = [0]"
    by (simp add: rising_edges_def trial_def fgt_def)
  have none: "rising_edges (map (\<lambda>r. r ! 2) (rows (trial [0, 0, 0, 0]))) 100 = []"
    by (simp add: rising_edges_def trial_def fgt_def)
  have c: "2 < ncols (trial vs)" for vs by (simp add: trial_def)
  have m: "(1 :: real) < 4" by simp
  show ?thesis
    using step_ID_few_rising_edges[OF m c, of "[0, 150, 150, 0]" 100 10]
      step_ID_few_rising_edges[OF m c, of "[0, 0, 0, 0]" 100 10] one none by simp
qed

text \<open>
  C5, as the code has it. Let the vertical channel \<open>v\<close> be above the threshold at its first
  sample, with at least two rising edges (so that line 48 is reached). Then the first
  falling edge precedes the first rising edge, and line 48 discards exactly that falling
  edge; every retained end is greater than the first begin, and the first retained end
  follows the first retained begin; line 50 cuts the begin list to the number of retained
  ends, so both lists have that length, and \<open>step_ID\<close> returns the pairs among them that
  pass the length test.
\<close>

theorem step_ID_leading_end:
  assumes "min_step < max_step" and "2 < ncols force" and "v = map (\<lambda>r. r ! 2) (rows force)"
    and "v \<noteq> []" and "fgt (hd v) threshold" and "2 \<le> length (edges_begin v threshold)"
  shows "edges_end v threshold \<noteq> []
       \<and> hd (edges_end v threshold) < hd (edges_begin v threshold)
       \<and> retained_end (edges_begin v threshold) (edges_end v threshold) = tl (edges_end v threshold)
       \<and> (\<forall>e\<in>set (retained_end (edges_begin v threshold) (edges_end v threshold)).
             hd (edges_begin v threshold) < e)
       \<and> retained_end (edges_begin v threshold) (edges_end v threshold) \<noteq> []
       \<and> hd (retained_begin (edges_begin v threshold) (edges_end v threshold))
           < hd (retained_end (edges_begin v threshold) (edges_end v threshold))
       \<and> retained_begin (edges_begin v threshold) (edges_end v threshold)
           = take (length (retained_end (edges_begin v threshold) (edges_end v threshold)))
               (edges_begin v threshold)
       \<and> length (retained_begin (edges_begin v threshold) (edges_end v threshold))
           = length (retained_end (edges_begin v threshold) (edges_end v threshold))
       \<and> step_ID force threshold Fs min_step max_step =
           (let rb = retained_begin (edges_begin v threshold) (edges_end v threshold);
                re = retained_end (edges_begin v threshold) (edges_end v threshold);
                good_step = map (\<lambda>l. min_step \<le> real_of_int l \<and> real_of_int l \<le> max_step)
                              (map2 (-) re rb)
            in Inr (select rb good_step, select re good_step))"
proof -
  let ?sb = "edges_begin v threshold" and ?se = "edges_end v threshold"
  obtain b0 b1 bs where sb: "?sb = b0 # b1 # bs"
    using assms(6) by (cases ?sb; cases "tl ?sb") auto
  have i0: "inter 0 ?se ?sb" using edges_start_above[OF assms(4,5)] .
  then obtain f0 fs where se: "?se = f0 # fs" using sb by (cases ?se) auto
  from i0 se sb have f0: "f0 < b0" and i2: "inter (b0 + 1) fs (b1 # bs)" by auto
  from i2 obtain e0 es where fs: "fs = e0 # es" by (cases fs) auto
  from i2 have "\<forall>e\<in>set fs. b0 < e" using inter_lower[of "b0 + 1" fs "b1 # bs"] by auto
  then have re: "retained_end ?sb ?se = fs" using sb se f0 by (simp add: retained_end_def)
  have b0e0: "b0 < e0" using i2 fs by simp
  have rb: "retained_begin ?sb ?se = take (length fs) ?sb" using re by (simp add: retained_begin_def)
  have hdrb: "hd (retained_begin ?sb ?se) = b0" using rb fs sb by simp
  have len: "length (retained_begin ?sb ?se) = length (retained_end ?sb ?se)"
    using retained_chain[of v threshold] sb by simp
  have later: "\<forall>e\<in>set (retained_end ?sb ?se). hd ?sb < e" by (simp add: retained_end_def)
  have lists: "?se \<noteq> [] \<and> hd ?se < hd ?sb \<and> retained_end ?sb ?se = tl ?se
       \<and> retained_end ?sb ?se \<noteq> []
       \<and> hd (retained_begin ?sb ?se) < hd (retained_end ?sb ?se)
       \<and> retained_begin ?sb ?se = take (length (retained_end ?sb ?se)) ?sb
       \<and> length (retained_begin ?sb ?se) = length (retained_end ?sb ?se)"
    using se sb f0 re fs b0e0 rb hdrb len by simp
  have run: "step_ID force threshold Fs min_step max_step =
           (let rb = retained_begin ?sb ?se; re = retained_end ?sb ?se;
                good_step = map (\<lambda>l. min_step \<le> real_of_int l \<and> real_of_int l \<le> max_step)
                              (map2 (-) re rb)
            in Inr (select rb good_step, select re good_step))"
    using step_ID_unfold[OF assms(1,2), of threshold Fs] assms(3,6) by (simp add: Let_def)
  from lists later run show ?thesis by blast
qed

theorem step_ID_leading_end_witness:
  "edges_begin (map (\<lambda>r. r ! 2) (rows starts_in_stance)) 100 = [1, 3]
   \<and> edges_end (map (\<lambda>r. r ! 2) (rows starts_in_stance)) 100 = [0, 2]
   \<and> retained_end [1, 3] [0, 2] = [2] \<and> retained_begin [1, 3] [0, 2] = [1]
   \<and> step_ID starts_in_stance 100 10 1 4 = Inr ([1], [2])"
proof -
  let ?v = "map (\<lambda>r. r ! 2) (rows starts_in_stance)"
  have v: "?v = [Some 150, Some 0, Some 150, Some 0, Some 150, Some 150]"
    by (simp add: starts_in_stance_def trial_def)
  have sb: "edges_begin ?v 100 = [1, 3]"
    unfolding v by (simp add: edges_begin_def compare_of_def fgt_def nonzero_def)
  have se: "edges_end ?v 100 = [0, 2]"
    unfolding v by (simp add: edges_end_def compare_of_def fgt_def nonzero_def)
  have h1: "(1 :: real) < 4" by simp
  have h2: "2 < ncols starts_in_stance" by (simp add: starts_in_stance_def trial_def)
  have h4: "?v \<noteq> []" unfolding v by simp
  have h5: "fgt (hd ?v) 100" unfolding v by (simp add: fgt_def)
  have h6: "2 \<le> length (edges_begin ?v 100)" using sb by simp
  have r: "retained_end [1, 3] [0, 2] = [2] \<and> retained_begin [1, 3] [0, 2] = [1]"
    by (simp add: retained_end_def retained_begin_def)
  show ?thesis
    using step_ID_leading_end[OF h1 h2 refl h4 h5 h6, of 10] sb se r
    by (simp add: select_def)
qed

text \<open>
  C5, as stated, fails: \<open>one_rising_edge\<close> is above the threshold at its first sample, its
  only falling edge (at 0) precedes its only rising edge (at 1), and \<open>step_ID\<close> raises
  \<^verbatim>\<open>IndexError\<close> at \<^verbatim>\<open>step_begin[0]\<close>: nothing is discarded or truncated, and no index is
  retained.
\<close>

theorem step_ID_leading_end_one_edge:
  "column one_rising_edge 2 = Inr [Some 150, Some 0, Some 150, Some 150]
   \<and> fgt (hd [Some 150, Some 0, Some 150, Some 150]) 100
   \<and> edges_end [Some 150, Some 0, Some 150, Some 150] 100 = [0]
   \<and> edges_begin [Some 150, Some 0, Some 150, Some 150] 100 = [1]
   \<and> step_ID one_rising_edge 100 10 1 4 = Inl numpy_IndexError"
  by (simp add: one_rising_edge_def trial_def step_ID_def column_def edges_begin_def edges_end_def
      compare_of_def fgt_def nonzero_def)

section \<open>Claims about \<^verbatim>\<open>readcheck_input\<close> and \<^verbatim>\<open>trim_aerial_phases\<close>\<close>

text \<open>
  C8. A table whose column count is not 3 makes \<open>readcheck_input\<close> raise \<^verbatim>\<open>ValueError\<close>; the
  message begins with \<^verbatim>\<open>force data must be Nx3 columns\<close>; \<open>detrend_force\<close> then raises the
  same error whatever the filter, the parameters and the trim selection are, so neither the
  filter nor the segmentation has run. A table with exactly 3 columns is returned unchanged.
\<close>

theorem readcheck_input_columns:
  "(ncols force_imported \<noteq> 3 \<longrightarrow>
      readcheck_input force_imported
        = Inl (ValueError ''force data must be Nx3 columns [horizontal, horizontal, vertical]'')
      \<and> detrend_force force_imported Fs Fc min_step step_threshold filt trim_sel
        = Inl (ValueError ''force data must be Nx3 columns [horizontal, horizontal, vertical]''))
   \<and> prefix ''force data must be Nx3 columns''
        ''force data must be Nx3 columns [horizontal, horizontal, vertical]''
   \<and> (ncols force_imported = 3 \<longrightarrow> readcheck_input force_imported = Inr force_imported)"
  by (simp add: readcheck_input_def detrend_force_def)

theorem readcheck_input_columns_witness:
  "ncols \<lparr>ncols = 4, rows = [[Some 1, Some 2, Some 3, Some 4]]\<rparr> \<noteq> 3
   \<and> readcheck_input \<lparr>ncols = 4, rows = [[Some 1, Some 2, Some 3, Some 4]]\<rparr>
       = Inl (ValueError ''force data must be Nx3 columns [horizontal, horizontal, vertical]'')
   \<and> detrend_force \<lparr>ncols = 4, rows = [[Some 1, Some 2, Some 3, Some 4]]\<rparr> 10 3 1 100
        (\<lambda>Fs Fc a. Inl (ValueError ''filter'')) [(3, 4)]
       = Inl (ValueError ''force data must be Nx3 columns [horizontal, horizontal, vertical]'')
   \<and> ncols three_steps = 3 \<and> readcheck_input three_steps = Inr three_steps"
proof -
  have a: "ncols \<lparr>ncols = 4, rows = [[Some 1, Some 2, Some 3, Some 4]]\<rparr> \<noteq> 3" by simp
  have b: "ncols three_steps = 3" by (simp add: three_steps_def trial_def)
  show ?thesis
    using readcheck_input_columns[of "\<lparr>ncols = 4, rows = [[Some 1, Some 2, Some 3, Some 4]]\<rparr>"
        10 3 1 100 "\<lambda>Fs Fc a. Inl (ValueError ''filter'')" "[(3, 4)]"]
      readcheck_input_columns[of three_steps 10 3 1 100 "\<lambda>Fs Fc a. Inr a" "[(3, 4)]"] a b
    by simp
qed

lemma short_second_aerial_step_ID:
  "step_ID short_second_aerial 100 10 1 4 = Inr ([0, 8, 14], [2, 10, 16])"
  by (simp add: short_second_aerial_def trial_def step_ID_def column_def edges_begin_def
      edges_end_def compare_of_def fgt_def nonzero_def retained_end_def retained_begin_def
      np_sub_def select_def)

text \<open>
  C4. The code departs from the claim where an aerial phase has length exactly \<open>2 * trim\<close>.
  In \<open>short_second_aerial\<close> the steps begin at 0, 8 and 14 and end at 2, 10 and 16, so the
  aerial phases have lengths 6 and 4. The markers of the first aerial phase stand at 2 and
  8 of the plotted window; the user selects the positions 4 and 6, which gives \<open>trim = 2\<close>.
  Line 140 tests \<open>aerial_len < trim * 2\<close>, so the trim is returned although \<open>2 * 2 < 4\<close> is
  false; the trimmed interior of the second aerial phase is empty and its means are
  \<^verbatim>\<open>nan\<close>.
\<close>

theorem trim_aerial_phases_accepts_equal:
  "step_ID short_second_aerial 100 10 1 4 = Inr ([0, 8, 14], [2, 10, 16])
   \<and> np_sub (tl [0, 8, 14]) (butlast [2, 10, 16]) = Inr [6, 4]
   \<and> trim_aerial_phases short_second_aerial [0, 8, 14] [2, 10, 16] [(4, 6)] = Inr 2
   \<and> \<not> (2 * 2 < (4 :: int))
   \<and> aerial_means short_second_aerial (butlast [2, 10, 16]) (tl [0, 8, 14]) 2
       = Inr [[Some 1, Some 2, Some (11 / 2)], [None, None, None]]"
proof -
  have trm: "trim_aerial_phases short_second_aerial [0, 8, 14] [2, 10, 16] [(4, 6)] = Inr 2"
    by (simp add: short_second_aerial_def trial_def trim_aerial_phases_def in_range_def
        slice_def slice_bound_def py_nth_def feq_def nonzero_def round_half_def np_sub_def)
  have mns: "aerial_means short_second_aerial (butlast [2, 10, 16]) (tl [0, 8, 14]) 2
       = Inr [[Some 1, Some 2, Some (11 / 2)], [None, None, None]]"
    by (simp add: short_second_aerial_def trial_def aerial_means_def trimmed_mean_def slice_def
        slice_bound_def np_mean_def)
  show ?thesis using short_second_aerial_step_ID trm mns by (simp add: np_sub_def)
qed

section \<open>Slices and the drift-removal loop\<close>

lemma slice_bound_nat: "0 \<le> a \<Longrightarrow> a \<le> int n \<Longrightarrow> slice_bound n a = nat a"
  by (auto simp: slice_bound_def)

lemma slice_upt:
  assumes "0 \<le> a" and "a \<le> b" and "b \<le> int (length xs)"
  shows "slice xs a b = map (\<lambda>k. xs ! k) [nat a..<nat b]"
proof -
  have lo: "slice_bound (length xs) a = nat a" and hi: "slice_bound (length xs) b = nat b"
    using assms by (auto intro: slice_bound_nat)
  have "take (nat b - nat a) (drop (nat a) xs) = map (\<lambda>k. xs ! k) [nat a..<nat b]"
    using assms by (intro nth_equalityI) auto
  then show ?thesis using lo hi by (simp add: slice_def)
qed

lemma slice_assign_nth:
  assumes "0 \<le> a" and "a \<le> b" and "b \<le> int (length xs)" and "length ys = nat b - nat a"
  shows "length (slice_assign xs a b ys) = length xs"
    and "k < length xs \<Longrightarrow>
         slice_assign xs a b ys ! k = (if nat a \<le> k \<and> k < nat b then ys ! (k - nat a) else xs ! k)"
proof -
  have lo: "slice_bound (length xs) a = nat a" and hi: "slice_bound (length xs) b = nat b"
    using assms by (auto intro: slice_bound_nat)
  have ab: "nat a \<le> nat b" "nat b \<le> length xs" using assms by auto
  show "length (slice_assign xs a b ys) = length xs"
    using ab assms(4) lo hi by (auto simp: slice_assign_def)
  show "slice_assign xs a b ys ! k = (if nat a \<le> k \<and> k < nat b then ys ! (k - nat a) else xs ! k)"
    if k: "k < length xs"
  proof (cases "nat a < nat b")
    case False
    have eq: "slice_assign xs a b ys = xs"
      unfolding slice_assign_def Let_def lo hi using False by (simp only: if_False)
    moreover have "\<not> (nat a \<le> k \<and> k < nat b)" using False by linarith
    ultimately show ?thesis by (simp only: if_False)
  next
    case True
    have eq: "slice_assign xs a b ys = take (nat a) xs @ ys @ drop (nat b) xs"
      unfolding slice_assign_def Let_def lo hi using True by (simp only: if_True)
    consider "k < nat a" | "nat a \<le> k" "k < nat b" | "nat b \<le> k" by linarith
    then show ?thesis
    proof cases
      case 1
      then show ?thesis using eq ab k by (simp add: nth_append)
    next
      case 2
      then have "k - nat a < nat b - nat a" by linarith
      then show ?thesis using 2 eq ab k assms(4) by (simp add: nth_append)
    next
      case 3
      have "\<not> k < nat a" "\<not> k - nat a < nat b - nat a" "k - nat a - (nat b - nat a) = k - nat b"
        using 3 True by linarith+
      then have "(take (nat a) xs @ ys @ drop (nat b) xs) ! k = drop (nat b) xs ! (k - nat b)"
        using ab k assms(4) by (simp add: nth_append)
      also have "\<dots> = xs ! k" using 3 ab k by simp
      finally show ?thesis using eq 3 by simp
    qed
  qed
qed

lemma detrend_step_nth:
  assumes "0 \<le> sb ! i" and "sb ! i \<le> sb ! (i + 1)" and "sb ! (i + 1) \<le> int (length f)"
    and "length fd = length f"
  shows "length (detrend_step f sb means fd i) = length f"
    and "k < length f \<Longrightarrow> detrend_step f sb means fd i ! k =
          (if sb ! i \<le> int k \<and> int k < sb ! (i + 1)
           then map (\<lambda>x. fsub x (diff_temp means i)) (f ! k) else fd ! k)"
proof -
  let ?a = "sb ! i" and ?b = "sb ! (i + 1)"
  let ?ys = "map (map (\<lambda>x. fsub x (diff_temp means i))) (slice f ?a ?b)"
  have sl: "slice f ?a ?b = map (\<lambda>k. f ! k) [nat ?a..<nat ?b]"
    using slice_upt[OF assms(1,2,3)] .
  have len: "length ?ys = nat ?b - nat ?a" using sl by simp
  have b': "?b \<le> int (length fd)" using assms by simp
  show "length (detrend_step f sb means fd i) = length f"
    using slice_assign_nth(1)[OF assms(1,2) b' len] assms(4) by (simp add: detrend_step_def)
  show "detrend_step f sb means fd i ! k =
          (if ?a \<le> int k \<and> int k < ?b
           then map (\<lambda>x. fsub x (diff_temp means i)) (f ! k) else fd ! k)" if k: "k < length f"
  proof -
    have kk: "k < length fd" using k assms(4) by simp
    have in_iff: "(nat ?a \<le> k \<and> k < nat ?b) \<longleftrightarrow> (?a \<le> int k \<and> int k < ?b)"
      using assms(1) by auto
    have "?ys ! (k - nat ?a) = map (\<lambda>x. fsub x (diff_temp means i)) (f ! k)"
      if "nat ?a \<le> k" "k < nat ?b"
      using that sl by simp
    then show ?thesis
      using slice_assign_nth(2)[OF assms(1,2) b' len kk] in_iff
      by (auto simp: detrend_step_def)
  qed
qed

lemma detrend_loop_append:
  "detrend_loop f sb means fd (xs @ ys) =
     (case detrend_loop f sb means fd xs of Inl e \<Rightarrow> Inl e
      | Inr fd' \<Rightarrow> detrend_loop f sb means fd' ys)"
  by (induction xs arbitrary: fd) auto


lemma sorted_wrt_nth_le:
  "sorted_wrt (<) (sb :: int list) \<Longrightarrow> i \<le> j \<Longrightarrow> j < length sb \<Longrightarrow> sb ! i \<le> sb ! j"
  by (cases "i = j") (auto dest: sorted_wrt_nth_less[of "(<)" sb i j])

lemma detrend_loop_windows:
  assumes srt: "sorted_wrt (<) sb" and rng: "\<forall>b\<in>set sb. 0 \<le> b \<and> b \<le> int (length f)"
    and lz: "length z = length f" and m: "m < length sb"
  shows "\<exists>fd. detrend_loop f sb means z [0..<m] = Inr fd \<and> length fd = length f
           \<and> (\<forall>i<m. \<forall>k<length f. sb ! i \<le> int k \<and> int k < sb ! Suc i \<longrightarrow>
                  fd ! k = map (\<lambda>x. fsub x (diff_temp means i)) (f ! k))
           \<and> (\<forall>k<length f. int k < sb ! 0 \<or> sb ! m \<le> int k \<longrightarrow> fd ! k = z ! k)"
  using m
proof (induction m)
  case 0
  then show ?case using lz by simp
next
  case (Suc m)
  then have m: "m < length sb" and sm: "Suc m < length sb" by auto
  from Suc.IH[OF m] obtain fd where run: "detrend_loop f sb means z [0..<m] = Inr fd"
    and len: "length fd = length f"
    and win: "\<forall>i<m. \<forall>k<length f. sb ! i \<le> int k \<and> int k < sb ! Suc i \<longrightarrow>
                  fd ! k = map (\<lambda>x. fsub x (diff_temp means i)) (f ! k)"
    and out: "\<forall>k<length f. int k < sb ! 0 \<or> sb ! m \<le> int k \<longrightarrow> fd ! k = z ! k"
    by blast
  let ?fd = "detrend_step f sb means fd m"
  have b0: "0 \<le> sb ! m" using rng m by (simp add: nth_mem)
  have b1: "sb ! m \<le> sb ! (m + 1)" using sorted_wrt_nth_le[OF srt, of m "Suc m"] sm by simp
  have b2: "sb ! (m + 1) \<le> int (length f)" using rng sm by (simp add: nth_mem)
  have len': "length ?fd = length f" using detrend_step_nth(1)[OF b0 b1 b2 len] .
  have nth': "?fd ! k = (if sb ! m \<le> int k \<and> int k < sb ! (m + 1)
           then map (\<lambda>x. fsub x (diff_temp means m)) (f ! k) else fd ! k)" if "k < length f" for k
    using detrend_step_nth(2)[OF b0 b1 b2 len that] .
  have run': "detrend_loop f sb means z [0..<Suc m] = Inr ?fd"
    using run sm by (simp add: detrend_loop_append)
  have win': "?fd ! k = map (\<lambda>x. fsub x (diff_temp means i)) (f ! k)"
    if i: "i < Suc m" and k: "k < length f" and a: "sb ! i \<le> int k" and b: "int k < sb ! Suc i" for i k
  proof (cases "i = m")
    case True
    then show ?thesis using nth'[OF k] a b by simp
  next
    case False
    then have im: "i < m" using i by simp
    have "sb ! Suc i \<le> sb ! m" using sorted_wrt_nth_le[OF srt, of "Suc i" m] im m by simp
    then have "\<not> (sb ! m \<le> int k \<and> int k < sb ! (m + 1))" using b by linarith
    then have "?fd ! k = fd ! k" using nth'[OF k] by (simp only: if_False)
    then show ?thesis using win im k a b by auto
  qed
  have out': "?fd ! k = z ! k" if k: "k < length f" and o: "int k < sb ! 0 \<or> sb ! Suc m \<le> int k" for k
  proof -
    have "sb ! 0 \<le> sb ! m" using sorted_wrt_nth_le[OF srt, of 0 m] m by simp
    then have notin: "\<not> (sb ! m \<le> int k \<and> int k < sb ! (m + 1))" using o by auto
    have "int k < sb ! 0 \<or> sb ! m \<le> int k" using o b1 by auto
    then have "fd ! k = z ! k" using out k by blast
    moreover have "?fd ! k = fd ! k" using nth'[OF k] notin by (simp only: if_False)
    ultimately show ?thesis by simp
  qed
  show ?case using run' len' win' out' by blast
qed

lemma fsub_zero: "fsub x (Some 0) = x"
  by (cases x) (simp_all add: fsub_def)

lemma diff_temp_zero: "means ! i ! 2 = Some 0 \<Longrightarrow> means ! (i + 1) ! 2 = Some 0 \<Longrightarrow> diff_temp means i = Some 0"
  by (simp add: diff_temp_def fadd_def fhalf_def)

lemma force_fd_windows:
  assumes "sorted_wrt (<) begins" and "\<forall>b\<in>set begins. 0 \<le> b \<and> b \<le> int (length (rows force_f))"
    and "length means < length begins"
  shows "\<exists>fd. force_fd force_f begins means = Inr fd \<and> length fd = length (rows force_f)
           \<and> (\<forall>i k. Suc i < length means \<and> begins ! i \<le> int k \<and> int k < begins ! Suc i \<longrightarrow>
                  fd ! k = map (\<lambda>x. fsub x (diff_temp means i)) (rows force_f ! k))
           \<and> (\<forall>k<length (rows force_f).
                 int k < begins ! 0 \<or> begins ! (length means - 1) \<le> int k \<longrightarrow>
                  fd ! k = replicate (ncols force_f) (Some 0))"
proof -
  let ?m = "length means - 1" and ?f = "rows force_f"
  have m: "?m < length begins" using assms(3) by simp
  have lz: "length (zeros force_f) = length ?f" by (simp add: zeros_def)
  from detrend_loop_windows[OF assms(1,2) lz m, of means]
  obtain fd where run: "detrend_loop ?f begins means (zeros force_f) [0..<?m] = Inr fd"
    and len: "length fd = length ?f"
    and win: "\<forall>i<?m. \<forall>k<length ?f. begins ! i \<le> int k \<and> int k < begins ! Suc i \<longrightarrow>
                  fd ! k = map (\<lambda>x. fsub x (diff_temp means i)) (?f ! k)"
    and out: "\<forall>k<length ?f. int k < begins ! 0 \<or> begins ! ?m \<le> int k \<longrightarrow> fd ! k = zeros force_f ! k"
    by blast
  have win': "fd ! k = map (\<lambda>x. fsub x (diff_temp means i)) (?f ! k)"
    if i: "Suc i < length means" and a: "begins ! i \<le> int k" and b: "int k < begins ! Suc i" for i k
  proof -
    have "Suc i < length begins" using i assms(3) by simp
    then have "begins ! Suc i \<le> int (length ?f)" using assms(2) by (simp add: nth_mem)
    then have k: "k < length ?f" using b by linarith
    have "i < ?m" using i by linarith
    then show ?thesis using win k a b by blast
  qed
  have out': "fd ! k = replicate (ncols force_f) (Some 0)"
    if "k < length ?f" "int k < begins ! 0 \<or> begins ! ?m \<le> int k" for k
  proof -
    have "fd ! k = zeros force_f ! k" using out that by blast
    then show ?thesis using that(1) by (simp add: zeros_def)
  qed
  show ?thesis using run len win' out' unfolding force_fd_def by blast
qed

lemma select_subset: "set (select xs m) \<subseteq> set xs"
  by (auto simp: select_def dest: set_zip_leftD)

lemma rising_edges_bound: "k \<in> set (rising_edges v t) \<Longrightarrow> Suc k < length v"
  by (auto simp: rising_edges_def)

lemma falling_edges_bound: "k \<in> set (falling_edges v t) \<Longrightarrow> Suc k < length v"
  by (auto simp: falling_edges_def)

lemma step_ID_Inr:
  assumes "step_ID force threshold Fs min_step max_step = Inr (B, E)"
  shows "min_step < max_step" and "2 < ncols force"
    and "2 \<le> length (edges_begin (map (\<lambda>r. r ! 2) (rows force)) threshold)"
proof -
  show mm: "min_step < max_step" using assms by (simp add: step_ID_def split: if_splits)
  show nc: "2 < ncols force"
  proof (rule ccontr)
    assume "\<not> 2 < ncols force"
    then have "step_ID force threshold Fs min_step max_step = Inl numpy_IndexError"
      using mm by (simp add: step_ID_def column_def)
    then show False using assms by simp
  qed
  have col: "column force 2 = Inr (map (\<lambda>r. r ! 2) (rows force))"
    using nc by (simp add: column_def)
  show "2 \<le> length (edges_begin (map (\<lambda>r. r ! 2) (rows force)) threshold)"
  proof (rule ccontr)
    assume "\<not> 2 \<le> length (edges_begin (map (\<lambda>r. r ! 2) (rows force)) threshold)"
    then have "length (edges_begin (map (\<lambda>r. r ! 2) (rows force)) threshold) = 0
             \<or> length (edges_begin (map (\<lambda>r. r ! 2) (rows force)) threshold) = 1" by linarith
    then have "step_ID force threshold Fs min_step max_step = Inl numpy_IndexError"
      using mm col by (auto simp: step_ID_def Let_def)
    then show False using assms by simp
  qed
qed

lemma step_ID_members:
  assumes "step_ID force threshold Fs min_step max_step = Inr (B, E)"
  shows "set B \<subseteq> set (edges_begin (map (\<lambda>r. r ! 2) (rows force)) threshold)
       \<and> set E \<subseteq> set (edges_end (map (\<lambda>r. r ! 2) (rows force)) threshold)"
proof -
  let ?v = "map (\<lambda>r. r ! 2) (rows force)"
  let ?sb = "edges_begin ?v threshold" and ?se = "edges_end ?v threshold"
  let ?g = "map (\<lambda>l. min_step \<le> real_of_int l \<and> real_of_int l \<le> max_step)
              (map2 (-) (retained_end ?sb ?se) (retained_begin ?sb ?se))"
  have "step_ID force threshold Fs min_step max_step
          = Inr (select (retained_begin ?sb ?se) ?g, select (retained_end ?sb ?se) ?g)"
    using step_ID_unfold[OF step_ID_Inr[OF assms], of Fs] by (simp only: Let_def)
  with assms have "Inr (B, E) = (Inr (select (retained_begin ?sb ?se) ?g, select (retained_end ?sb ?se) ?g)
      :: error + int list \<times> int list)"
    by (simp only:)
  then have B: "B = select (retained_begin ?sb ?se) ?g"
    and E: "E = select (retained_end ?sb ?se) ?g"
    by (simp_all only: sum.inject prod.inject)
  have "set (retained_begin ?sb ?se) \<subseteq> set ?sb"
    by (auto simp: retained_begin_def dest: in_set_takeD)
  moreover have "set (retained_end ?sb ?se) \<subseteq> set ?se" by (auto simp: retained_end_def)
  ultimately show ?thesis
    using B E select_subset[of "retained_begin ?sb ?se" ?g] select_subset[of "retained_end ?sb ?se" ?g]
    by blast
qed

lemma step_ID_bounds:
  assumes "step_ID force threshold Fs min_step max_step = Inr (B, E)"
  shows "(\<forall>b\<in>set B. 0 \<le> b \<and> b + 1 < int (length (rows force)))
       \<and> (\<forall>e\<in>set E. 0 \<le> e \<and> e + 1 < int (length (rows force)))"
proof -
  let ?v = "map (\<lambda>r. r ! 2) (rows force)"
  from step_ID_members[OF assms]
  have B: "set B \<subseteq> int ` set (rising_edges ?v threshold)"
    and E: "set E \<subseteq> int ` set (falling_edges ?v threshold)"
    by (simp_all add: edges_begin_rising edges_end_falling)
  have "0 \<le> b \<and> b + 1 < int (length (rows force))" if "b \<in> set B" for b
  proof -
    from that B obtain k where "b = int k" "k \<in> set (rising_edges ?v threshold)" by auto
    then show ?thesis using rising_edges_bound[of k ?v threshold] by simp
  qed
  moreover have "0 \<le> e \<and> e + 1 < int (length (rows force))" if "e \<in> set E" for e
  proof -
    from that E obtain k where "e = int k" "k \<in> set (falling_edges ?v threshold)" by auto
    then show ?thesis using falling_edges_bound[of k ?v threshold] by simp
  qed
  ultimately show ?thesis by blast
qed

lemma detrend_force_Inr:
  assumes "detrend_force force_imported Fs Fc min_step step_threshold filt trim_sel = Inr (out, means, means_d)"
  shows "\<exists>force_f begins ends trim.
           ncols force_imported = 3
         \<and> filt Fs Fc force_imported = Inr force_f
         \<and> step_ID force_f step_threshold Fs min_step (0.4 * Fs) = Inr (begins, ends)
         \<and> trim_aerial_phases force_f begins ends trim_sel = Inr trim
         \<and> aerial_means force_f (butlast ends) (tl begins) trim = Inr means
         \<and> force_fd force_f begins means = Inr (rows out)
         \<and> ncols out = ncols force_f"
  using assms unfolding detrend_force_def readcheck_input_def
  by (auto split: sum.splits if_splits prod.splits)

lemma trim_aerial_phases_Inr:
  assumes "trim_aerial_phases force sb se clicks = Inr trim"
  shows "2 \<le> length sb \<and> 2 \<le> length se"
proof (rule ccontr)
  assume "\<not> (2 \<le> length sb \<and> 2 \<le> length se)"
  then have "length sb < 2 \<or> length se < 2" by linarith
  then have "trim_aerial_phases force sb se clicks = Inl numpy_IndexError"
    by (simp add: trim_aerial_phases_def)
  then show False using assms by simp
qed

lemma aerial_means_length:
  "aerial_means force_f ab ae trim = Inr means \<Longrightarrow> length means = length ab"
  unfolding aerial_means_def by (auto split: if_splits)

lemma three_steps_detrend:
  "detrend_force three_steps 10 3 1 100 no_filter [(1, 4), (3, 4)]
     = Inr (\<lparr>ncols = 3,
             rows = [[Some (- 5), Some (- 4), Some (- 6)], [Some (- 5), Some (- 4), Some 144],
                     [Some (- 5), Some (- 4), Some 154], [Some (- 5), Some (- 4), Some (- 2)],
                     [Some (- 5), Some (- 4), Some (- 1)], [Some 0, Some 0, Some 0],
                     [Some 0, Some 0, Some 0], [Some 0, Some 0, Some 0], [Some 0, Some 0, Some 0],
                     [Some 0, Some 0, Some 0], [Some 0, Some 0, Some 0], [Some 0, Some 0, Some 0],
                     [Some 0, Some 0, Some 0], [Some 0, Some 0, Some 0]]\<rparr>,
            [[Some 1, Some 2, Some 4], [Some 1, Some 2, Some 8]], [Some (- 2)])"
proof -
  have seg: "step_ID three_steps 100 10 1 (0.4 * 10) = Inr ([0, 5, 10], [2, 7, 12])"
    using three_steps_step_ID by simp
  have trm: "trim_aerial_phases three_steps [0, 5, 10] [2, 7, 12] [(1, 4), (3, 4)] = Inr 1"
    by (simp add: three_steps_def trial_def trim_aerial_phases_def in_range_def
        slice_def slice_bound_def py_nth_def feq_def nonzero_def round_half_def np_sub_def)
  have mns: "aerial_means three_steps (butlast [2, 7, 12]) (tl [0, 5, 10]) 1
               = Inr [[Some 1, Some 2, Some 4], [Some 1, Some 2, Some 8]]"
    by (simp add: three_steps_def trial_def aerial_means_def trimmed_mean_def slice_def
        slice_bound_def np_mean_def)
  have r3: "replicate 3 x = [x, x, x]" for x :: float by (simp add: numeral_3_eq_3)
  have fd: "force_fd three_steps [0, 5, 10] [[Some 1, Some 2, Some 4], [Some 1, Some 2, Some 8]]
      = Inr [[Some (- 5), Some (- 4), Some (- 6)], [Some (- 5), Some (- 4), Some 144],
                     [Some (- 5), Some (- 4), Some 154], [Some (- 5), Some (- 4), Some (- 2)],
                     [Some (- 5), Some (- 4), Some (- 1)], [Some 0, Some 0, Some 0],
                     [Some 0, Some 0, Some 0], [Some 0, Some 0, Some 0], [Some 0, Some 0, Some 0],
                     [Some 0, Some 0, Some 0], [Some 0, Some 0, Some 0], [Some 0, Some 0, Some 0],
                     [Some 0, Some 0, Some 0], [Some 0, Some 0, Some 0]]"
    by (simp add: three_steps_def trial_def force_fd_def zeros_def detrend_step_def diff_temp_def
        slice_assign_def slice_def slice_bound_def fadd_def fhalf_def fsub_def r3)
  have md: "aerial_means_d \<lparr>ncols = ncols three_steps,
        rows = [[Some (- 5), Some (- 4), Some (- 6)], [Some (- 5), Some (- 4), Some 144],
                     [Some (- 5), Some (- 4), Some 154], [Some (- 5), Some (- 4), Some (- 2)],
                     [Some (- 5), Some (- 4), Some (- 1)], [Some 0, Some 0, Some 0],
                     [Some 0, Some 0, Some 0], [Some 0, Some 0, Some 0], [Some 0, Some 0, Some 0],
                     [Some 0, Some 0, Some 0], [Some 0, Some 0, Some 0], [Some 0, Some 0, Some 0],
                     [Some 0, Some 0, Some 0], [Some 0, Some 0, Some 0]]\<rparr>
          (butlast [2, 7, 12]) (tl [0, 5, 10]) 1 = Inr [Some (- 2)]"
    by (simp add: three_steps_def trial_def aerial_means_d_def trimmed_mean_def slice_def
        slice_bound_def np_mean_def)
  have rd: "readcheck_input three_steps = Inr three_steps"
    by (simp add: readcheck_input_def three_steps_def trial_def)
  have nc: "ncols three_steps = 3" by (simp add: three_steps_def trial_def)
  show ?thesis
    unfolding detrend_force_def rd using seg trm mns fd md nc by (simp add: no_filter_def)
qed

lemma zero_drift_step_ID: "step_ID zero_drift 100 10 1 4 = Inr ([0, 5, 10], [2, 7, 12])"
  by (simp add: zero_drift_def step_ID_def column_def edges_begin_def edges_end_def
      compare_of_def fgt_def nonzero_def retained_end_def retained_begin_def np_sub_def select_def)

lemma zero_drift_force_fd:
  "force_fd zero_drift [0, 5, 10] [[Some 0, Some 0, Some 0], [Some 0, Some 0, Some 0]]
     = Inr [[Some 0, Some 0, Some 2], [Some 0, Some 0, Some 150], [Some 0, Some 0, Some 160],
              [Some 0, Some 0, Some 0], [Some 0, Some 0, Some (- 1)], [Some 0, Some 0, Some 0],
              [Some 0, Some 0, Some 0], [Some 0, Some 0, Some 0], [Some 0, Some 0, Some 0],
              [Some 0, Some 0, Some 0], [Some 0, Some 0, Some 0], [Some 0, Some 0, Some 0],
              [Some 0, Some 0, Some 0], [Some 0, Some 0, Some 0]]"
proof -
  have r3: "replicate 3 x = [x, x, x]" for x :: float by (simp add: numeral_3_eq_3)
  show ?thesis
    by (simp add: zero_drift_def force_fd_def zeros_def detrend_step_def diff_temp_def
        slice_assign_def slice_def slice_bound_def fadd_def fhalf_def fsub_def r3)
qed

lemma zero_drift_detrend:
  "detrend_force zero_drift 10 3 1 100 no_filter [(3, 4)]
     = Inr (\<lparr>ncols = 3, rows = [[Some 0, Some 0, Some 2], [Some 0, Some 0, Some 150], [Some 0, Some 0, Some 160],
              [Some 0, Some 0, Some 0], [Some 0, Some 0, Some (- 1)], [Some 0, Some 0, Some 0],
              [Some 0, Some 0, Some 0], [Some 0, Some 0, Some 0], [Some 0, Some 0, Some 0],
              [Some 0, Some 0, Some 0], [Some 0, Some 0, Some 0], [Some 0, Some 0, Some 0],
              [Some 0, Some 0, Some 0], [Some 0, Some 0, Some 0]]\<rparr>,
            [[Some 0, Some 0, Some 0], [Some 0, Some 0, Some 0]], [])"
proof -
  have seg: "step_ID zero_drift 100 10 1 (0.4 * 10) = Inr ([0, 5, 10], [2, 7, 12])"
    using zero_drift_step_ID by simp
  have trm: "trim_aerial_phases zero_drift [0, 5, 10] [2, 7, 12] [(3, 4)] = Inr 1"
    by (simp add: zero_drift_def trim_aerial_phases_def in_range_def
        slice_def slice_bound_def py_nth_def feq_def nonzero_def round_half_def np_sub_def)
  have mns: "aerial_means zero_drift (butlast [2, 7, 12]) (tl [0, 5, 10]) 1
               = Inr [[Some 0, Some 0, Some 0], [Some 0, Some 0, Some 0]]"
    by (simp add: zero_drift_def aerial_means_def trimmed_mean_def slice_def
        slice_bound_def np_mean_def)
  have md: "aerial_means_d \<lparr>ncols = ncols zero_drift, rows = [[Some 0, Some 0, Some 2], [Some 0, Some 0, Some 150], [Some 0, Some 0, Some 160],
              [Some 0, Some 0, Some 0], [Some 0, Some 0, Some (- 1)], [Some 0, Some 0, Some 0],
              [Some 0, Some 0, Some 0], [Some 0, Some 0, Some 0], [Some 0, Some 0, Some 0],
              [Some 0, Some 0, Some 0], [Some 0, Some 0, Some 0], [Some 0, Some 0, Some 0],
              [Some 0, Some 0, Some 0], [Some 0, Some 0, Some 0]]\<rparr>
          (butlast [2, 7, 12]) (tl [0, 5, 10]) 1 = Inr []"
    by (simp add: zero_drift_def aerial_means_d_def trimmed_mean_def slice_def
        slice_bound_def np_mean_def)
  have rd: "readcheck_input zero_drift = Inr zero_drift"
    by (simp add: readcheck_input_def zero_drift_def)
  have nc: "ncols zero_drift = 3" by (simp add: zero_drift_def)
  show ?thesis
    unfolding detrend_force_def rd using seg trm mns zero_drift_force_fd md nc
    by (simp add: no_filter_def)
qed

section \<open>Claims about the drift removal\<close>

text \<open>
  C7, as the code has it. Let the begin indices be strictly increasing and within the
  signal, as \<open>step_ID\<close> returns them, and let every aerial mean given to the drift-removal
  loop have the vertical component zero. Then the loop returns, and on every window
  \<open>[begins[i], begins[i+1])\<close> that it corrects (\<open>i + 1\<close> below the number of means, that is
  \<open>i\<close> from \<open>0\<close> to \<open>K - 3\<close>) the output rows are the input rows; before \<open>begins[0]\<close> and from
  \<open>begins[K-2]\<close> on the output rows are zero. In the model the equality is exact: floats are
  reals.
\<close>

theorem force_fd_zero_means:
  assumes "sorted_wrt (<) begins" and "\<forall>b\<in>set begins. 0 \<le> b \<and> b \<le> int (length (rows force_f))"
    and "length means < length begins" and "\<forall>i<length means. means ! i ! 2 = Some 0"
  shows "\<exists>fd. force_fd force_f begins means = Inr fd \<and> length fd = length (rows force_f)
           \<and> (\<forall>i k. Suc i < length means \<and> begins ! i \<le> int k \<and> int k < begins ! Suc i \<longrightarrow>
                  fd ! k = rows force_f ! k)
           \<and> (\<forall>k<length (rows force_f).
                 int k < begins ! 0 \<or> begins ! (length means - 1) \<le> int k \<longrightarrow>
                  fd ! k = replicate (ncols force_f) (Some 0))"
proof -
  from force_fd_windows[OF assms(1,2,3)] obtain fd where
    run: "force_fd force_f begins means = Inr fd" and len: "length fd = length (rows force_f)"
    and win: "\<forall>i k. Suc i < length means \<and> begins ! i \<le> int k \<and> int k < begins ! Suc i \<longrightarrow>
                  fd ! k = map (\<lambda>x. fsub x (diff_temp means i)) (rows force_f ! k)"
    and out: "\<forall>k<length (rows force_f).
                 int k < begins ! 0 \<or> begins ! (length means - 1) \<le> int k \<longrightarrow>
                  fd ! k = replicate (ncols force_f) (Some 0)"
    by blast
  have "fd ! k = rows force_f ! k"
    if i: "Suc i < length means" and a: "begins ! i \<le> int k" and b: "int k < begins ! Suc i" for i k
  proof -
    have "diff_temp means i = Some 0" using assms(4) i by (intro diff_temp_zero) auto
    moreover have "fd ! k = map (\<lambda>x. fsub x (diff_temp means i)) (rows force_f ! k)"
      using win i a b by blast
    ultimately show ?thesis by (simp add: fsub_zero)
  qed
  then show ?thesis using run len out by blast
qed

theorem force_fd_zero_means_witness:
  "\<exists>fd. force_fd three_steps [0, 5, 10] [[Some 0, Some 0, Some 0], [Some 0, Some 0, Some 0]] = Inr fd
        \<and> length fd = 14 \<and> fd ! 3 = [Some 1, Some 2, Some 4]"
proof -
  let ?Z = "[[Some 0, Some 0, Some 0], [Some 0, Some 0, Some (0 :: real)]]"
  have h1: "sorted_wrt (<) [0, 5, 10 :: int]" by simp
  have h2: "\<forall>b\<in>set [0, 5, 10 :: int]. 0 \<le> b \<and> b \<le> int (length (rows three_steps))"
    by (simp add: three_steps_def trial_def)
  have h3: "length ?Z < length [0, 5, 10 :: int]" by simp
  have h4: "\<forall>i<length ?Z. ?Z ! i ! 2 = Some 0" by (simp add: less_Suc_eq)
  from force_fd_zero_means[OF h1 h2 h3 h4] obtain fd where
    run: "force_fd three_steps [0, 5, 10] ?Z = Inr fd" and len: "length fd = length (rows three_steps)"
    and win: "\<forall>i k. Suc i < length ?Z \<and> [0, 5, 10] ! i \<le> int k \<and> int k < [0, 5, 10] ! Suc i \<longrightarrow>
                  fd ! k = rows three_steps ! k"
    by blast
  have "Suc 0 < length ?Z \<and> [0, 5, 10] ! 0 \<le> int 3 \<and> int 3 < [0, 5, 10 :: int] ! Suc 0" by simp
  with win have "fd ! 3 = rows three_steps ! 3" by blast
  then have "fd ! 3 = [Some 1, Some 2, Some 4]" by (simp add: three_steps_def trial_def)
  moreover have "length fd = 14" using len by (simp add: three_steps_def trial_def)
  ultimately show ?thesis using run by blast
qed

text \<open>
  C7, as stated, fails: in \<open>zero_drift\<close> the \<open>K = 3\<close> stance phases begin at 0, 5 and 10, the
  user selects \<open>trim = 1\<close>, and both aerial means are zero on every axis. The window of
  step \<open>0\<close> is returned unchanged, but in the window \<open>[5, 10)\<close> of step \<open>K - 2 = 1\<close>, which
  lies within \<open>[begins[0], begins[K-1])\<close>, the output is zero: row 6 of the output is
  \<open>[0, 0, 0]\<close>, where the input row is \<open>[0, 0, 170]\<close>.
\<close>

theorem force_fd_zero_means_last_window:
  "step_ID zero_drift 100 10 1 (0.4 * 10) = Inr ([0, 5, 10], [2, 7, 12])
   \<and> rows zero_drift ! 6 = [Some 0, Some 0, Some 170]
   \<and> force_fd zero_drift [0, 5, 10] [[Some 0, Some 0, Some 0], [Some 0, Some 0, Some 0]]
       = Inr [[Some 0, Some 0, Some 2], [Some 0, Some 0, Some 150], [Some 0, Some 0, Some 160],
              [Some 0, Some 0, Some 0], [Some 0, Some 0, Some (- 1)], [Some 0, Some 0, Some 0],
              [Some 0, Some 0, Some 0], [Some 0, Some 0, Some 0], [Some 0, Some 0, Some 0],
              [Some 0, Some 0, Some 0], [Some 0, Some 0, Some 0], [Some 0, Some 0, Some 0],
              [Some 0, Some 0, Some 0], [Some 0, Some 0, Some 0]]
   \<and> detrend_force zero_drift 10 3 1 100 no_filter [(3, 4)]
       = Inr (\<lparr>ncols = 3, rows = [[Some 0, Some 0, Some 2], [Some 0, Some 0, Some 150], [Some 0, Some 0, Some 160],
              [Some 0, Some 0, Some 0], [Some 0, Some 0, Some (- 1)], [Some 0, Some 0, Some 0],
              [Some 0, Some 0, Some 0], [Some 0, Some 0, Some 0], [Some 0, Some 0, Some 0],
              [Some 0, Some 0, Some 0], [Some 0, Some 0, Some 0], [Some 0, Some 0, Some 0],
              [Some 0, Some 0, Some 0], [Some 0, Some 0, Some 0]]\<rparr>,
              [[Some 0, Some 0, Some 0], [Some 0, Some 0, Some 0]], [])"
  using zero_drift_step_ID zero_drift_force_fd zero_drift_detrend by (simp add: zero_drift_def)

text \<open>
  C1, as the code has it. When \<open>detrend_force\<close> returns, with \<open>K\<close> stance phases (\<open>K \<ge> 2\<close>)
  and hence \<open>K - 1\<close> aerial means, the loop runs over \<open>range(K - 2)\<close>: for every \<open>i\<close> from
  \<open>0\<close> to \<open>K - 3\<close> each row of the window \<open>[begins[i], begins[i+1])\<close> is the filtered row minus
  \<open>b_i = (means[i][2] + means[i+1][2]) / 2\<close> on every axis; every row before \<open>begins[0]\<close> and
  from \<open>begins[K-2]\<close> on, the window of step \<open>K - 2\<close> included, is left at zero.
\<close>

theorem detrend_force_windows:
  assumes "detrend_force force_imported Fs Fc min_step step_threshold filt trim_sel = Inr (out, means, means_d)"
  shows "\<exists>force_f begins ends.
      filt Fs Fc force_imported = Inr force_f
    \<and> step_ID force_f step_threshold Fs min_step (0.4 * Fs) = Inr (begins, ends)
    \<and> 2 \<le> length begins \<and> length means = length begins - 1
    \<and> length (rows out) = length (rows force_f)
    \<and> (\<forall>i k. i + 2 < length begins \<and> begins ! i \<le> int k \<and> int k < begins ! (i + 1) \<longrightarrow>
          rows out ! k = map (\<lambda>x. fsub x (fhalf (fadd (means ! i ! 2) (means ! (i + 1) ! 2))))
                           (rows force_f ! k))
    \<and> (\<forall>k<length (rows force_f). int k < begins ! 0 \<or> begins ! (length begins - 2) \<le> int k \<longrightarrow>
          rows out ! k = replicate (ncols force_f) (Some 0))"
proof -
  from detrend_force_Inr[OF assms] obtain force_f begins ends trim where
    flt: "filt Fs Fc force_imported = Inr force_f"
    and seg: "step_ID force_f step_threshold Fs min_step (0.4 * Fs) = Inr (begins, ends)"
    and trm: "trim_aerial_phases force_f begins ends trim_sel = Inr trim"
    and mns: "aerial_means force_f (butlast ends) (tl begins) trim = Inr means"
    and fd: "force_fd force_f begins means = Inr (rows out)"
    by blast
  from step_ID_pairs[OF seg] obtain j where len: "length begins = length ends"
    and ch: "chain j (zip begins ends)" by auto
  have srt: "sorted_wrt (<) begins" using chain_sorted[OF len ch] by simp
  have rng: "\<forall>b\<in>set begins. 0 \<le> b \<and> b \<le> int (length (rows force_f))"
    using step_ID_bounds[OF seg] by auto
  have k2: "2 \<le> length begins" using trim_aerial_phases_Inr[OF trm] by simp
  have lm: "length means = length begins - 1" using aerial_means_length[OF mns] len by simp
  have lt: "length means < length begins" using lm k2 by linarith
  from force_fd_windows[OF srt rng lt] fd
  have lenfd: "length (rows out) = length (rows force_f)"
    and win: "\<forall>i k. Suc i < length means \<and> begins ! i \<le> int k \<and> int k < begins ! Suc i \<longrightarrow>
                  rows out ! k = map (\<lambda>x. fsub x (diff_temp means i)) (rows force_f ! k)"
    and outside: "\<forall>k<length (rows force_f).
                 int k < begins ! 0 \<or> begins ! (length means - 1) \<le> int k \<longrightarrow>
                  rows out ! k = replicate (ncols force_f) (Some 0)"
    by auto
  have win': "rows out ! k = map (\<lambda>x. fsub x (fhalf (fadd (means ! i ! 2) (means ! (i + 1) ! 2))))
                           (rows force_f ! k)"
    if "i + 2 < length begins" "begins ! i \<le> int k" "int k < begins ! (i + 1)" for i k
  proof -
    have "Suc i < length means" using that(1) lm by linarith
    then show ?thesis using win that(2,3) by (simp add: diff_temp_def)
  qed
  have idx: "length means - 1 = length begins - 2" using lm by simp
  have outside': "rows out ! k = replicate (ncols force_f) (Some 0)"
    if "k < length (rows force_f)" "int k < begins ! 0 \<or> begins ! (length begins - 2) \<le> int k" for k
    using outside that unfolding idx by blast
  show ?thesis using flt seg k2 lm lenfd win' outside' by blast
qed

theorem detrend_force_windows_witness:
  "\<exists>force_f begins ends.
      no_filter 10 3 three_steps = Inr force_f
    \<and> step_ID force_f 100 10 1 (0.4 * 10) = Inr (begins, ends)
    \<and> 2 \<le> length begins
    \<and> length [[Some 1, Some 2, Some 4], [Some 1, Some 2, Some (8 :: real)]] = length begins - 1"
  using detrend_force_windows[OF three_steps_detrend] by blast

text \<open>
  C1, as stated, fails: \<open>three_steps\<close> has \<open>K = 3\<close> stance phases beginning at 0, 5 and 10.
  The user selects first the positions 1 and 4, which the loop refuses, then 3 and 4, which
  give \<open>trim = 1\<close>. The window of step \<open>0\<close> is corrected by \<open>(4 + 8) / 2 = 6\<close>, but the window
  \<open>[5, 10)\<close> of step \<open>K - 2 = 1\<close> is not: row 6 of the output is zero on all three axes,
  where the filtered row is \<open>[1, 2, 170]\<close> (no aerial mean of index 2 exists to form \<open>b_1\<close>).
\<close>

theorem detrend_force_last_window:
  "step_ID three_steps 100 10 1 (0.4 * 10) = Inr ([0, 5, 10], [2, 7, 12])
   \<and> rows three_steps ! 6 = [Some 1, Some 2, Some 170]
   \<and> detrend_force three_steps 10 3 1 100 no_filter [(1, 4), (3, 4)]
     = Inr (\<lparr>ncols = 3,
             rows = [[Some (- 5), Some (- 4), Some (- 6)], [Some (- 5), Some (- 4), Some 144],
                     [Some (- 5), Some (- 4), Some 154], [Some (- 5), Some (- 4), Some (- 2)],
                     [Some (- 5), Some (- 4), Some (- 1)], [Some 0, Some 0, Some 0],
                     [Some 0, Some 0, Some 0], [Some 0, Some 0, Some 0], [Some 0, Some 0, Some 0],
                     [Some 0, Some 0, Some 0], [Some 0, Some 0, Some 0], [Some 0, Some 0, Some 0],
                     [Some 0, Some 0, Some 0], [Some 0, Some 0, Some 0]]\<rparr>,
            [[Some 1, Some 2, Some 4], [Some 1, Some 2, Some 8]], [Some (- 2)])"
  using three_steps_step_ID three_steps_detrend by (simp add: three_steps_def trial_def)

section \<open>Raising the threshold\<close>

lemma inter_gap:
  "inter k bs es \<Longrightarrow> (b, e) \<in> set (zip bs es) \<Longrightarrow> f \<in> set es \<Longrightarrow> \<not> (b < f \<and> f < e)"
proof (induction bs arbitrary: es k)
  case Nil
  then show ?case by simp
next
  case (Cons b0 bs)
  show ?case
  proof (cases es)
    case Nil
    then show ?thesis using Cons.prems by simp
  next
    case (Cons e0 es')
    from Cons.prems(1) Cons have b0e0: "b0 < e0" and rest: "inter (e0 + 1) bs es'" by auto
    from inter_lower[OF rest] have lb: "\<forall>x\<in>set bs. e0 < x" and le: "\<forall>y\<in>set es'. e0 < y"
      by auto
    from Cons.prems(2) Cons have "(b, e) = (b0, e0) \<or> (b, e) \<in> set (zip bs es')" by auto
    then show ?thesis
    proof
      assume "(b, e) = (b0, e0)"
      then show ?thesis using Cons.prems(3) Cons le by auto
    next
      assume in_rest: "(b, e) \<in> set (zip bs es')"
      then have "b \<in> set bs" by (auto dest: set_zip_leftD)
      then have e0b: "e0 < b" using lb by simp
      from Cons.prems(3) Cons have "f = e0 \<or> f \<in> set es'" by auto
      then show ?thesis
      proof
        assume "f = e0"
        then show ?thesis using e0b by simp
      next
        assume "f \<in> set es'"
        then show ?thesis using Cons.IH[OF rest in_rest] by simp
      qed
    qed
  qed
qed

lemma inter_hd_le: "inter k bs es \<Longrightarrow> b \<in> set bs \<Longrightarrow> hd bs \<le> b"
proof (cases bs)
  case Nil
  assume "b \<in> set bs"
  then show ?thesis using Nil by simp
next
  case (Cons b0 bs')
  assume i: "inter k bs es" and b: "b \<in> set bs"
  from i Cons have "inter (b0 + 1) es bs'" by simp
  from inter_lower[OF this] have "\<forall>x\<in>set bs'. b0 < x" by auto
  then show ?thesis using b Cons by auto
qed

lemma falling_edges_iff:
  "n \<in> set (falling_edges v t) \<longleftrightarrow> Suc n < length v \<and> fgt (v ! n) t \<and> \<not> fgt (v ! Suc n) t"
  by (auto simp: falling_edges_def)

lemma rising_edges_iff:
  "n \<in> set (rising_edges v t) \<longleftrightarrow> Suc n < length v \<and> \<not> fgt (v ! n) t \<and> fgt (v ! Suc n) t"
  by (auto simp: rising_edges_def)

lemma step_ID_pair_edges:
  assumes "step_ID force threshold Fs min_step max_step = Inr (B, E)" and "i < length B"
  shows "(B ! i, E ! i) \<in> set (zip (edges_begin (map (\<lambda>r. r ! 2) (rows force)) threshold)
            (retained_end (edges_begin (map (\<lambda>r. r ! 2) (rows force)) threshold)
               (edges_end (map (\<lambda>r. r ! 2) (rows force)) threshold)))"
proof -
  let ?v = "map (\<lambda>r. r ! 2) (rows force)"
  let ?sb = "edges_begin ?v threshold" and ?se = "edges_end ?v threshold"
  let ?rb = "retained_begin ?sb ?se" and ?re = "retained_end ?sb ?se"
  let ?P = "\<lambda>l. min_step \<le> real_of_int l \<and> real_of_int l \<le> max_step"
  let ?g = "map ?P (map2 (-) ?re ?rb)"
  have "step_ID force threshold Fs min_step max_step = Inr (select ?rb ?g, select ?re ?g)"
    using step_ID_unfold[OF step_ID_Inr[OF assms(1)], of Fs] by (simp only: Let_def)
  with assms(1) have "Inr (B, E) = (Inr (select ?rb ?g, select ?re ?g) :: error + int list \<times> int list)"
    by (simp only:)
  then have B: "B = select ?rb ?g" and E: "E = select ?re ?g"
    by (simp_all only: sum.inject prod.inject)
  have ne: "?sb \<noteq> []" using step_ID_Inr(3)[OF assms(1)] by auto
  from retained_chain[OF ne] have len: "length ?rb = length ?re" by simp
  from select_pairs[OF len, of ?P "(-)"] B E
  have zipBE: "zip B E = filter (\<lambda>(b, e). ?P (e - b)) (zip ?rb ?re)" and lenBE: "length B = length E"
    by auto
  have "(B ! i, E ! i) \<in> set (zip B E)"
    using assms(2) lenBE by (metis in_set_conv_nth length_zip min.idem nth_zip)
  then have "(B ! i, E ! i) \<in> set (zip ?rb ?re)" using zipBE by auto
  moreover have "set (zip ?rb ?re) \<subseteq> set (zip ?sb ?re)"
    unfolding retained_begin_def by (auto simp: set_zip)
  ultimately show ?thesis by blast
qed


lemma step_ID_stance_above:
  assumes run: "step_ID force threshold Fs min_step max_step = Inr (B, E)" and i: "i < length B"
    and lo: "B ! i < k" and hi: "k \<le> E ! i"
  shows "nat k < length (rows force) \<and> fgt (rows force ! nat k ! 2) threshold"
proof -
  let ?v = "map (\<lambda>r. r ! 2) (rows force)"
  let ?sb = "edges_begin ?v threshold" and ?se = "edges_end ?v threshold"
  let ?re = "retained_end ?sb ?se"
  have pair: "(B ! i, E ! i) \<in> set (zip ?sb ?re)" using step_ID_pair_edges[OF run i] .
  have ne: "?sb \<noteq> []" using step_ID_Inr(3)[OF run] by auto
  from inter_retained[OF ne edges_alternate] obtain j where int: "inter j ?sb ?re"
    by (auto simp: retained_end_def)
  have bin: "B ! i \<in> set ?sb" and ein: "E ! i \<in> set ?se"
    using pair by (auto dest: set_zip_leftD set_zip_rightD simp: retained_end_def)
  from bin obtain kb where kb: "B ! i = int kb" "kb \<in> set (rising_edges ?v threshold)"
    by (auto simp: edges_begin_rising)
  from ein obtain ke where ke: "E ! i = int ke" "ke \<in> set (falling_edges ?v threshold)"
    by (auto simp: edges_end_falling)
  have nogap: "\<not> (kb < n \<and> n < ke)" if n: "n \<in> set (falling_edges ?v threshold)" for n
  proof
    assume a: "kb < n \<and> n < ke"
    have "hd ?sb \<le> B ! i" using inter_hd_le[OF int bin] .
    then have "hd ?sb < int n" using a kb(1) by linarith
    moreover have "int n \<in> set ?se" using n by (simp add: edges_end_falling)
    ultimately have "int n \<in> set ?re" by (simp add: retained_end_def)
    from inter_gap[OF int pair this] show False using a kb(1) ke(1) by simp
  qed
  have above: "kb < n \<Longrightarrow> n \<le> ke \<Longrightarrow> fgt (?v ! n) threshold" for n
  proof (induction n)
    case 0
    then show ?case by simp
  next
    case (Suc n)
    show ?case
    proof (cases "kb = n")
      case True
      then show ?thesis using kb(2) by (auto simp: rising_edges_iff)
    next
      case False
      then have kn: "kb < n" "n < ke" using Suc.prems by auto
      then have prev: "fgt (?v ! n) threshold" using Suc.IH by simp
      have "Suc ke < length ?v" using ke(2) by (simp add: falling_edges_iff)
      then have len: "Suc n < length ?v" using kn by linarith
      show ?thesis
      proof (rule ccontr)
        assume "\<not> fgt (?v ! Suc n) threshold"
        then have "n \<in> set (falling_edges ?v threshold)"
          using prev len unfolding falling_edges_iff by blast
        then show False using nogap kn by blast
      qed
    qed
  qed
  have k0: "0 \<le> k" using lo kb(1) by linarith
  have "kb < nat k" "nat k \<le> ke" using lo hi kb(1) ke(1) by linarith+
  then have ab: "fgt (?v ! nat k) threshold" using above by blast
  have "Suc ke < length ?v" using ke(2) by (simp add: falling_edges_iff)
  then have kl: "nat k < length (rows force)" using \<open>nat k \<le> ke\<close> by simp
  then show ?thesis using ab by simp
qed

lemma fgt_mono: "fgt x t2 \<Longrightarrow> t1 \<le> t2 \<Longrightarrow> fgt x t1"
  by (cases x) (auto simp: fgt_def)

lemma compare_of_antimono: "t1 \<le> t2 \<Longrightarrow> sum_list (compare_of v t2) \<le> sum_list (compare_of v t1)"
  by (induction v) (auto simp: compare_of_def dest: fgt_mono)

lemma dip_step_ID:
  "step_ID dip 3 10 1 5 = Inr ([0, 4], [3, 5]) \<and> step_ID dip 7 10 1 5 = Inr ([0, 2, 4], [1, 3, 5])"
  by (simp add: dip_def trial_def step_ID_def column_def edges_begin_def edges_end_def
      compare_of_def fgt_def nonzero_def retained_end_def retained_begin_def np_sub_def select_def)

text \<open>
  C9, as the code has it. For thresholds \<open>t1 \<le> t2\<close>, a sample above \<open>t2\<close> is above \<open>t1\<close>: the
  number of samples binarized to 1 does not increase when the threshold is raised, and
  every stance phase \<open>(begin, end)\<close> that \<open>step_ID\<close> returns at \<open>t2\<close> has its samples
  \<open>begin + 1, \<dots>, end\<close> above \<open>t2\<close> and above \<open>t1\<close>. Nothing is claimed of the number of
  stance phases.
\<close>

theorem threshold_raise:
  assumes "t1 \<le> t2"
  shows "sum_list (compare_of v t2) \<le> sum_list (compare_of v t1)
       \<and> (step_ID force t2 Fs min_step max_step = Inr (B, E) \<longrightarrow>
            (\<forall>i k. i < length B \<and> B ! i < k \<and> k \<le> E ! i \<longrightarrow>
               nat k < length (rows force)
               \<and> fgt (rows force ! nat k ! 2) t2 \<and> fgt (rows force ! nat k ! 2) t1))"
proof -
  have "nat k < length (rows force)
        \<and> fgt (rows force ! nat k ! 2) t2 \<and> fgt (rows force ! nat k ! 2) t1"
    if "step_ID force t2 Fs min_step max_step = Inr (B, E)" "i < length B" "B ! i < k" "k \<le> E ! i"
    for i k
    using step_ID_stance_above[OF that] fgt_mono[OF _ assms] by blast
  then show ?thesis using compare_of_antimono[OF assms] by blast
qed

theorem threshold_raise_witness:
  "(3 :: real) \<le> 7
   \<and> sum_list (compare_of (map (\<lambda>r. r ! 2) (rows dip)) 7)
       \<le> sum_list (compare_of (map (\<lambda>r. r ! 2) (rows dip)) 3)
   \<and> step_ID dip 7 10 1 5 = Inr ([0, 2, 4], [1, 3, 5])
   \<and> fgt (rows dip ! 3 ! 2) 7 \<and> fgt (rows dip ! 3 ! 2) 3"
proof -
  have le: "(3 :: real) \<le> 7" by simp
  have run: "step_ID dip 7 10 1 5 = Inr ([0, 2, 4], [1, 3, 5])" using dip_step_ID by simp
  have idx: "Suc 0 < length [0, 2, 4 :: int] \<and> [0, 2, 4] ! Suc 0 < (3 :: int) \<and> 3 \<le> [1, 3, 5 :: int] ! Suc 0"
    by simp
  from threshold_raise[OF le, of "map (\<lambda>r. r ! 2) (rows dip)" dip 10 1 5 "[0, 2, 4]" "[1, 3, 5]"] run idx
  have "sum_list (compare_of (map (\<lambda>r. r ! 2) (rows dip)) 7)
           \<le> sum_list (compare_of (map (\<lambda>r. r ! 2) (rows dip)) 3)"
    and "fgt (rows dip ! nat 3 ! 2) 7 \<and> fgt (rows dip ! nat 3 ! 2) 3"
    by blast+
  then show ?thesis using le run by simp
qed

text \<open>
  C9, as stated, fails: in \<open>dip\<close> the first stance phase dips to 5 N between two peaks of
  10 N. At the threshold 3 \<open>step_ID\<close> returns two stance phases; at the threshold 7 the dip
  splits the first one and \<open>step_ID\<close> returns three.
\<close>

theorem threshold_raise_more_steps:
  "(3 :: real) \<le> 7
   \<and> step_ID dip 3 10 1 5 = Inr ([0, 4], [3, 5])
   \<and> step_ID dip 7 10 1 5 = Inr ([0, 2, 4], [1, 3, 5])
   \<and> length [0, 4 :: int] < length [0, 2, 4 :: int]"
  using dip_step_ID by simp

section \<open>Claims about the aerial means\<close>

lemma np_mean_finite:
  assumes "xs \<noteq> []" and "None \<notin> set xs"
  shows "np_mean xs = Some (sum_list (map the xs) / real (length xs))"
  using assms by (simp add: np_mean_def)

lemma trimmed_mean_upt:
  assumes "0 \<le> b + trim" and "b + trim \<le> e - trim" and "e - trim \<le> int (length a)"
  shows "trimmed_mean a b e trim j = np_mean (map (\<lambda>k. a ! k ! j) [nat (b + trim)..<nat (e - trim)])"
  using slice_upt[OF assms] by (simp add: trimmed_mean_def comp_def)

text \<open>
  C6. Let the loop of lines 241 to 245 return \<open>means\<close>, and let the trimmed interior
  \<open>[aerial_begins[i] + trim, aerial_ends[i] - trim)\<close> of aerial phase \<open>i\<close> be non-empty and
  within the signal. Then there is one mean per aerial phase, and for each of the three
  axes \<open>j\<close>, \<open>means[i][j]\<close> is \<open>np.mean\<close> of the samples of axis \<open>j\<close> at the indices of the
  interior: when none of them is \<^verbatim>\<open>nan\<close>, their sum divided by their number.
\<close>

theorem aerial_means_trimmed:
  assumes "aerial_means force_f aerial_begin_all aerial_end_all trim = Inr means"
    and "i < length aerial_begin_all" and "j < 3"
    and "0 \<le> aerial_begin_all ! i + trim"
    and "aerial_begin_all ! i + trim < aerial_end_all ! i - trim"
    and "aerial_end_all ! i - trim \<le> int (length (rows force_f))"
    and "lo = nat (aerial_begin_all ! i + trim)" and "hi = nat (aerial_end_all ! i - trim)"
  shows "length means = length aerial_begin_all
       \<and> means ! i ! j = np_mean (map (\<lambda>k. rows force_f ! k ! j) [lo..<hi])
       \<and> ((\<forall>k\<in>{lo..<hi}. rows force_f ! k ! j \<noteq> None) \<longrightarrow>
            means ! i ! j = Some ((\<Sum>k = lo..<hi. the (rows force_f ! k ! j)) / real (hi - lo)))"
proof -
  let ?tm = "\<lambda>i j. trimmed_mean (rows force_f) (aerial_begin_all ! i) (aerial_end_all ! i) trim j"
  have ne: "aerial_begin_all \<noteq> []" using assms(2) by auto
  from assms(1) ne have means: "means = map (\<lambda>i. [?tm i 0, ?tm i 1, ?tm i 2]) [0..<length aerial_begin_all]"
    by (simp add: aerial_means_def split: if_splits)
  then have len: "length means = length aerial_begin_all" by simp
  have row: "means ! i = [?tm i 0, ?tm i 1, ?tm i 2]" using means assms(2) by simp
  have "j = 0 \<or> j = 1 \<or> j = 2" using assms(3) by linarith
  then have mij: "means ! i ! j = ?tm i j" using row by auto
  have le: "aerial_begin_all ! i + trim \<le> aerial_end_all ! i - trim" using assms(5) by simp
  have eq: "means ! i ! j = np_mean (map (\<lambda>k. rows force_f ! k ! j) [lo..<hi])"
    using mij trimmed_mean_upt[OF assms(4) le assms(6), of j] assms(7,8) by simp
  have lohi: "lo < hi" using assms(4,5,7,8) by linarith
  have fin: "means ! i ! j = Some ((\<Sum>k = lo..<hi. the (rows force_f ! k ! j)) / real (hi - lo))"
    if all: "\<forall>k\<in>{lo..<hi}. rows force_f ! k ! j \<noteq> None"
  proof -
    let ?xs = "map (\<lambda>k. rows force_f ! k ! j) [lo..<hi]"
    have "?xs \<noteq> []" using lohi by simp
    moreover have "None \<notin> set ?xs" using all by auto
    ultimately have "np_mean ?xs = Some (sum_list (map the ?xs) / real (length ?xs))"
      by (rule np_mean_finite)
    moreover have "sum_list (map the ?xs) = (\<Sum>k = lo..<hi. the (rows force_f ! k ! j))"
      by (simp add: comp_def interv_sum_list_conv_sum_set_nat)
    ultimately show ?thesis using eq by simp
  qed
  show ?thesis using len eq fin by blast
qed

theorem aerial_means_trimmed_witness:
  "aerial_means even_gaps [2, 8] [6, 12] 0
     = Inr [[Some 1, Some 2, Some (81 / 2)], [Some 1, Some 2, Some 42]]
   \<and> [[Some 1, Some 2, Some (81 / 2)], [Some 1, Some 2, Some (42 :: real)]] ! 0 ! 2
       = np_mean [Some 150, Some 4, Some 4, Some 4]
   \<and> np_mean [Some 150, Some 4, Some 4, Some 4] = Some (81 / 2)"
proof -
  have run: "aerial_means even_gaps [2, 8] [6, 12] 0
     = Inr [[Some 1, Some 2, Some (81 / 2)], [Some 1, Some 2, Some 42]]"
    by (simp add: even_gaps_def trial_def aerial_means_def trimmed_mean_def slice_def
        slice_bound_def np_mean_def)
  have h2: "0 < length [2, 8 :: int]" and h3: "(2 :: nat) < 3" by simp_all
  have h4: "0 \<le> [2, 8 :: int] ! 0 + 0" and h5: "[2, 8 :: int] ! 0 + 0 < [6, 12] ! 0 - 0" by simp_all
  have h6: "[6, 12 :: int] ! 0 - 0 \<le> int (length (rows even_gaps))"
    by (simp add: even_gaps_def trial_def)
  have "[[Some 1, Some 2, Some (81 / 2)], [Some 1, Some 2, Some (42 :: real)]] ! 0 ! 2
      = np_mean (map (\<lambda>k. rows even_gaps ! k ! 2) [nat ([2, 8] ! 0 + 0)..<nat ([6, 12] ! 0 - 0)])"
    using aerial_means_trimmed[OF run h2 h3 h4 h5 h6 refl refl] by blast
  moreover have "map (\<lambda>k. rows even_gaps ! k ! 2) [nat ([2, 8] ! 0 + 0)..<nat ([6, 12] ! 0 - 0)]
      = [Some 150, Some 4, Some 4, Some 4]"
    by (simp add: even_gaps_def trial_def upt_rec_numeral)
  moreover have "np_mean [Some 150, Some 4, Some 4, Some 4] = Some (81 / 2)"
    by (simp add: np_mean_def)
  ultimately show ?thesis using run by simp
qed

end
